theory Spec2Isabelle
  imports Main "HOL-Library.Word" "HOL-Library.Multiset"
begin

unbundle bit_operations_syntax

section \<open>Errors\<close>

text \<open>
  Go's \<open>error\<close> values that the two packages produce or pass on. \<open>PathError\<close> and
  \<open>LinkError\<close> are the structs of io/fs and os; \<open>ErrorsNew\<close> is \<open>errors.New\<close>.
  A nil error is \<open>None\<close> of \<open>error option\<close>.
\<close>

datatype error =
    ErrInvalid
  | ErrNotExist
  | ErrExist
  | ErrPermission
  | ENOTDIR
  | ELOOP
  | errPathEscapes
  | ErrorsNew string
  | PathError string string error
  | LinkError string string string error

section \<open>Names of the generic store (package io/fs)\<close>

text \<open>\<open>strings.Split(name, "/")\<close>: the pieces of a name between slashes.\<close>

fun splitSlash :: "string \<Rightarrow> string list" where
  "splitSlash [] = [[]]"
| "splitSlash (c # cs) =
     (if c = CHR ''/'' then [] # splitSlash cs
      else (case splitSlash cs of [] \<Rightarrow> [[c]] | w # ws \<Rightarrow> (c # w) # ws))"

text \<open>
  Modelled from the spec: \<open>fs.ValidPath\<close>, whose file (io/fs/fs.go) is not among the
  sources. Section 3 of the spec gives the rule for a relative name: an ordered sequence of
  non-empty path components, no component equal to \<open>..\<close>, no leading separator, no embedded
  NUL. A leading separator makes the first component empty, so the first condition covers
  it. The spec's "UTF-8-like" gives no condition on a byte string that could be checked,
  so none is imposed.
\<close>

definition ValidPath :: "string \<Rightarrow> bool" where
  "ValidPath name \<longleftrightarrow>
     list_all (\<lambda>elem. elem \<noteq> [] \<and> elem \<noteq> ''..'') (splitSlash name) \<and>
     CHR 0x00 \<notin> set name"

text \<open>
  Modelled from the spec: \<open>path.Join\<close> on a prefix and a validated name (package path is
  not among the sources). Section 4.3: every incoming relative name is rewritten to
  \<open>prefix + "/" + name\<close>.
\<close>

definition path_Join :: "string \<Rightarrow> string \<Rightarrow> string" where
  "path_Join dir name = dir @ ''/'' @ name"

section \<open>PathResolver: splitPathInRoot (package os)\<close>

text \<open>
  What splitPathInRoot takes from files that are not among the sources: the value of
  \<open>runtime.GOOS == "windows"\<close>, \<open>IsPathSeparator\<close> and \<open>rootCleanPath\<close>.
\<close>

record platform =
  windows :: bool
  IsPathSeparator :: "char \<Rightarrow> bool"
  rootCleanPath :: "string \<Rightarrow> string list \<Rightarrow> string list \<Rightarrow> string \<times> error option"

text \<open>The platforms where \<open>/\<close> is the only separator and paths are not cleaned.\<close>

definition unix :: platform where
  "unix = \<lparr> windows = False, IsPathSeparator = (\<lambda>c. c = CHR ''/''),
            rootCleanPath = (\<lambda>s prefix suffix. (s, None)) \<rparr>"

text \<open>
  The inner loop \<open>for j < len(s) && IsPathSeparator(s[j]) { j++ }\<close>.
\<close>

function skipSeparators :: "platform \<Rightarrow> string \<Rightarrow> nat \<Rightarrow> nat" where
  "skipSeparators pf s j =
     (if j < length s \<and> IsPathSeparator pf (s ! j) then skipSeparators pf s (j + 1) else j)"
  by pat_completeness auto
termination
  by (relation "measure (\<lambda>(pf, s, j). length s - j)") auto

lemma skipSeparators_ge: "j \<le> skipSeparators pf s j"
proof (induction pf s j rule: skipSeparators.induct)
  case (1 pf s j)
  show ?case
  proof (cases "j < length s \<and> IsPathSeparator pf (s ! j)")
    case True
    with 1 have "j + 1 \<le> skipSeparators pf s (j + 1)" by simp
    moreover from True have "skipSeparators pf s j = skipSeparators pf s (j + 1)"
      by (subst skipSeparators.simps) simp
    ultimately show ?thesis by simp
  next
    case False
    then have "skipSeparators pf s j = j"
      by (subst skipSeparators.simps) auto
    then show ?thesis by simp
  qed
qed

lemma skipSeparators_stop:
  "skipSeparators pf s j < length s \<Longrightarrow> \<not> IsPathSeparator pf (s ! skipSeparators pf s j)"
proof (induction pf s j rule: skipSeparators.induct)
  case (1 pf s j)
  show ?case
  proof (cases "j < length s \<and> IsPathSeparator pf (s ! j)")
    case True
    then have eq: "skipSeparators pf s j = skipSeparators pf s (j + 1)"
      by (subst skipSeparators.simps) simp
    with 1 True show ?thesis by simp
  next
    case False
    then have eq: "skipSeparators pf s j = j"
      by (subst skipSeparators.simps) auto
    with 1(2) False show ?thesis by simp
  qed
qed

text \<open>
  The outer loop of splitPathInRoot, on the variables \<open>parts\<close>, \<open>i\<close> and \<open>j\<close>. It returns
  \<open>parts\<close> and \<open>suffixSep\<close> at the \<open>break\<close>. The slice expression \<open>s[i:j]\<close> panics when
  \<open>j > len(s)\<close> or \<open>i > j\<close>; a panic is the value \<open>None\<close>.
\<close>

function splitLoop :: "platform \<Rightarrow> string \<Rightarrow> string list \<Rightarrow> nat \<Rightarrow> nat
    \<Rightarrow> (string list \<times> string) option" where
  "splitLoop pf s parts i j =
     (if j < length s \<and> \<not> IsPathSeparator pf (s ! j) then splitLoop pf s parts i (j + 1)
      else if length s < j \<or> j < i then None
      else
        let parts1 = parts @ [take (j - i) (drop i s)];
            partEnd = j;
            j1 = skipSeparators pf s j
        in if j1 = length s then Some (parts1, drop partEnd s)
           else
             let parts2 = (if last parts1 = ''.'' then butlast parts1 else parts1)
             in splitLoop pf s parts2 j1 j1)"
  by pat_completeness auto
termination
proof (relation "measure (\<lambda>(pf, s, parts, i, j). length s - j)", goal_cases)
  case 1
  show ?case by simp
next
  case (2 pf s parts i j)
  then show ?case by auto
next
  case (3 pf s parts i j x xa xb xc)
  from 3(1) have scan: "j < length s \<Longrightarrow> IsPathSeparator pf (s ! j)" by blast
  from 3(2) have le: "j \<le> length s" by simp
  from 3(5) have xb: "xb = skipSeparators pf s j" .
  from 3(6) have ne: "xb \<noteq> length s" .
  have ge: "j \<le> xb" unfolding xb by (rule skipSeparators_ge)
  have "xb \<noteq> j"
  proof
    assume eq: "xb = j"
    with le ne have lt: "j < length s" by simp
    from skipSeparators_stop [of pf s j] eq xb lt
    have "\<not> IsPathSeparator pf (s ! j)" by simp
    with scan lt show False by simp
  qed
  with ge have gt: "j < xb" by simp
  have "j \<noteq> length s"
  proof
    assume "j = length s"
    then have "skipSeparators pf s j = j"
      by (subst skipSeparators.simps) simp
    with xb gt show False by simp
  qed
  with le have "j < length s" by simp
  with gt have "length s - xb < length s - j" by simp
  then show ?case by simp
qed

declare splitLoop.simps [simp del]
declare skipSeparators.simps [simp del]

text \<open>
  splitPathInRoot. The three results of the Go function (\<open>parts\<close>, \<open>suffixSep\<close>, \<open>err\<close>)
  are a triple; \<open>None\<close> is a panic of the loop.
\<close>

definition splitPathInRoot :: "platform \<Rightarrow> string \<Rightarrow> string list \<Rightarrow> string list
    \<Rightarrow> (string list \<times> string \<times> error option) option" where
  "splitPathInRoot pf s0 prefix0 suffix0 =
     (if length s0 = 0 then Some ([], [], Some (ErrorsNew ''empty path''))
      else if IsPathSeparator pf (s0 ! 0) then Some ([], [], Some errPathEscapes)
      else
        let cleaned = (if windows pf then rootCleanPath pf s0 prefix0 suffix0 else (s0, None))
        in case snd cleaned of
             Some err \<Rightarrow> Some ([], [], Some err)
           | None \<Rightarrow>
               let s = fst cleaned;
                   prefix = (if windows pf then [] else prefix0);
                   suffix = (if windows pf then [] else suffix0)
               in case splitLoop pf s prefix 0 1 of
                    None \<Rightarrow> None
                  | Some (parts, suffixSep) \<Rightarrow>
                      let parts1 = (if length suffix > 0 \<and> length parts > 0 \<and> last parts = ''.''
                                    then butlast parts else parts)
                      in Some (parts1 @ suffix, suffixSep, None))"


section \<open>The generic store and the prefixed subtree (package io/fs)\<close>

type_synonym FileMode = "32 word"
type_synonym File = nat
type_synonym FileInfo = nat

record DirEntry =
  Name :: string
  IsDir :: bool

text \<open>
  A store, seen from subFS: for each package-level function of io/fs that subFS calls with
  the store as first argument (\<open>Stat(fsys, name)\<close>, \<open>Rename(fsys, old, new)\<close>, ...), what
  that call does to the world \<open>'s\<close> and returns. Those functions are not among the sources,
  except OpenFile, which asks whether the store implements OpenFileFS; \<open>OpenFileFS\<close> is
  the store's OpenFile method when it does. A Go result \<open>(v, err)\<close> is a pair; a nil
  pointer or interface is \<open>None\<close>, a nil slice is \<open>[]\<close>.
\<close>

record 's FS =
  Open :: "string \<Rightarrow> 's \<Rightarrow> (File option \<times> error option) \<times> 's"
  OpenFileFS :: "(string \<Rightarrow> int \<Rightarrow> FileMode \<Rightarrow> 's \<Rightarrow> (File option \<times> error option) \<times> 's) option"
  Create :: "string \<Rightarrow> 's \<Rightarrow> (File option \<times> error option) \<times> 's"
  Stat :: "string \<Rightarrow> 's \<Rightarrow> (FileInfo option \<times> error option) \<times> 's"
  ReadDir :: "string \<Rightarrow> 's \<Rightarrow> (DirEntry list \<times> error option) \<times> 's"
  ReadFile :: "string \<Rightarrow> 's \<Rightarrow> (string \<times> error option) \<times> 's"
  ReadLink :: "string \<Rightarrow> 's \<Rightarrow> (string \<times> error option) \<times> 's"
  Lstat :: "string \<Rightarrow> 's \<Rightarrow> (FileInfo option \<times> error option) \<times> 's"
  Glob :: "string \<Rightarrow> 's \<Rightarrow> (string list \<times> error option) \<times> 's"
  Mkdir :: "string \<Rightarrow> FileMode \<Rightarrow> 's \<Rightarrow> error option \<times> 's"
  MkdirAll :: "string \<Rightarrow> FileMode \<Rightarrow> 's \<Rightarrow> error option \<times> 's"
  Rename :: "string \<Rightarrow> string \<Rightarrow> 's \<Rightarrow> error option \<times> 's"
  Chmod :: "string \<Rightarrow> FileMode \<Rightarrow> 's \<Rightarrow> error option \<times> 's"
  Chown :: "string \<Rightarrow> int \<Rightarrow> int \<Rightarrow> 's \<Rightarrow> error option \<times> 's"
  Chtimes :: "string \<Rightarrow> int \<Rightarrow> int \<Rightarrow> 's \<Rightarrow> error option \<times> 's"
  Remove :: "string \<Rightarrow> 's \<Rightarrow> error option \<times> 's"
  RemoveAll :: "string \<Rightarrow> 's \<Rightarrow> error option \<times> 's"
  Symlink :: "string \<Rightarrow> string \<Rightarrow> 's \<Rightarrow> error option \<times> 's"
  Link :: "string \<Rightarrow> string \<Rightarrow> 's \<Rightarrow> error option \<times> 's"

definition OpenFile :: "'s FS \<Rightarrow> string \<Rightarrow> int \<Rightarrow> FileMode \<Rightarrow> 's
    \<Rightarrow> (File option \<times> error option) \<times> 's" where
  "OpenFile fsys name flag perm s =
     (case OpenFileFS fsys of
        None \<Rightarrow> ((None, Some (PathError ''openfile'' name ErrInvalid)), s)
      | Some sym1 \<Rightarrow> sym1 name flag perm s)"

text \<open>The struct subFS; \<open>'f\<close> is the type of the wrapped store.\<close>

record 'f subFS =
  fsys :: 'f
  dir :: string

definition fullName :: "'f subFS \<Rightarrow> string \<Rightarrow> string \<Rightarrow> string \<times> error option" where
  "fullName f op name =
     (if \<not> ValidPath name then ([], Some (PathError op name ErrInvalid))
      else (path_Join (dir f) name, None))"

definition shorten :: "'f subFS \<Rightarrow> string \<Rightarrow> string \<times> bool" where
  "shorten f name =
     (if name = dir f then (''.'', True)
      else if length name \<ge> length (dir f) + 2 \<and> name ! length (dir f) = CHR ''/''
              \<and> take (length (dir f)) name = dir f
           then (drop (length (dir f) + 1) name, True)
      else ([], False))"

definition fixErr :: "'f subFS \<Rightarrow> error option \<Rightarrow> error option" where
  "fixErr f err =
     (case err of
        Some (PathError op path e) \<Rightarrow>
          (case shorten f path of
             (short, True) \<Rightarrow> Some (PathError op short e)
           | (short, False) \<Rightarrow> err)
      | _ \<Rightarrow> err)"

definition subFS_Open :: "'s FS subFS \<Rightarrow> string \<Rightarrow> 's \<Rightarrow> (File option \<times> error option) \<times> 's" where
  "subFS_Open f name s =
     (case fullName f ''open'' name of
        (full, Some err) \<Rightarrow> ((None, Some err), s)
      | (full, None) \<Rightarrow>
          (case Open (fsys f) full s of ((file, err), s1) \<Rightarrow> ((file, fixErr f err), s1)))"

definition subFS_OpenFile :: "'s FS subFS \<Rightarrow> string \<Rightarrow> int \<Rightarrow> FileMode \<Rightarrow> 's
    \<Rightarrow> (File option \<times> error option) \<times> 's" where
  "subFS_OpenFile f name flag perm s =
     (case fullName f ''openfile'' name of
        (full, Some err) \<Rightarrow> ((None, Some err), s)
      | (full, None) \<Rightarrow>
          (case OpenFile (fsys f) full flag perm s of
             ((file, err), s1) \<Rightarrow> ((file, fixErr f err), s1)))"

definition subFS_Create :: "'s FS subFS \<Rightarrow> string \<Rightarrow> 's \<Rightarrow> (File option \<times> error option) \<times> 's" where
  "subFS_Create f name s =
     (case fullName f ''create'' name of
        (full, Some err) \<Rightarrow> ((None, Some err), s)
      | (full, None) \<Rightarrow>
          (case Create (fsys f) full s of ((file, err), s1) \<Rightarrow> ((file, fixErr f err), s1)))"

definition subFS_Stat :: "'s FS subFS \<Rightarrow> string \<Rightarrow> 's \<Rightarrow> (FileInfo option \<times> error option) \<times> 's" where
  "subFS_Stat f name s =
     (case fullName f ''read'' name of
        (full, Some err) \<Rightarrow> ((None, Some err), s)
      | (full, None) \<Rightarrow> Stat (fsys f) full s)"

definition subFS_ReadDir :: "'s FS subFS \<Rightarrow> string \<Rightarrow> 's \<Rightarrow> (DirEntry list \<times> error option) \<times> 's" where
  "subFS_ReadDir f name s =
     (case fullName f ''read'' name of
        (full, Some err) \<Rightarrow> (([], Some err), s)
      | (full, None) \<Rightarrow>
          (case ReadDir (fsys f) full s of ((d, err), s1) \<Rightarrow> ((d, fixErr f err), s1)))"

definition subFS_ReadFile :: "'s FS subFS \<Rightarrow> string \<Rightarrow> 's \<Rightarrow> (string \<times> error option) \<times> 's" where
  "subFS_ReadFile f name s =
     (case fullName f ''read'' name of
        (full, Some err) \<Rightarrow> (([], Some err), s)
      | (full, None) \<Rightarrow>
          (case ReadFile (fsys f) full s of ((data, err), s1) \<Rightarrow> ((data, fixErr f err), s1)))"

definition subFS_ReadLink :: "'s FS subFS \<Rightarrow> string \<Rightarrow> 's \<Rightarrow> (string \<times> error option) \<times> 's" where
  "subFS_ReadLink f name s =
     (case fullName f ''readlink'' name of
        (full, Some err) \<Rightarrow> (([], Some err), s)
      | (full, None) \<Rightarrow>
          (case ReadLink (fsys f) full s of
             ((target, Some err), s1) \<Rightarrow> (([], fixErr f (Some err)), s1)
           | ((target, None), s1) \<Rightarrow> ((target, None), s1)))"

definition subFS_Lstat :: "'s FS subFS \<Rightarrow> string \<Rightarrow> 's \<Rightarrow> (FileInfo option \<times> error option) \<times> 's" where
  "subFS_Lstat f name s =
     (case fullName f ''lstat'' name of
        (full, Some err) \<Rightarrow> ((None, Some err), s)
      | (full, None) \<Rightarrow>
          (case Lstat (fsys f) full s of
             ((info, Some err), s1) \<Rightarrow> ((None, fixErr f (Some err)), s1)
           | ((info, None), s1) \<Rightarrow> ((info, None), s1)))"

text \<open>
  The loop of Glob over the matches: \<open>list[i]\<close> is overwritten by its shortened name; the
  first match that shorten refuses ends the loop with the error. In the error text,
  \<open>name\<close> is the variable that the loop body redeclares, shorten's first result.
\<close>

function globLoop :: "'f subFS \<Rightarrow> string list \<Rightarrow> nat \<Rightarrow> string list \<times> error option" where
  "globLoop f list i =
     (if i < length list then
        (case shorten f (list ! i) of
           (name, ok) \<Rightarrow>
             if \<not> ok then
               ([], Some (ErrorsNew (''invalid result from inner fsys Glob: '' @ name
                                      @ '' not in '' @ dir f)))
             else globLoop f (list[i := name]) (i + 1))
      else (list, None))"
  by pat_completeness auto
termination
  by (relation "measure (\<lambda>(f, list, i). length list - i)") auto

declare globLoop.simps [simp del]

text \<open>
  Glob. \<open>Match\<close> is \<open>path.Match\<close> (package path is not among the sources); only its error
  on the empty name is used, to tell whether the pattern is well-formed.
\<close>

definition subFS_Glob :: "(string \<Rightarrow> string \<Rightarrow> bool \<times> error option) \<Rightarrow> 's FS subFS \<Rightarrow> string
    \<Rightarrow> 's \<Rightarrow> (string list \<times> error option) \<times> 's" where
  "subFS_Glob Match f pattern s =
     (case snd (Match pattern []) of
        Some err \<Rightarrow> (([], Some err), s)
      | None \<Rightarrow>
          if pattern = ''.'' then (([''.''], None), s)
          else
            let full = dir f @ ''/'' @ pattern
            in case Glob (fsys f) full s of
                 ((list, err), s1) \<Rightarrow>
                   (case globLoop f list 0 of
                      (list1, Some e) \<Rightarrow> (([], Some e), s1)
                    | (list1, None) \<Rightarrow> ((list1, fixErr f err), s1)))"

definition subFS_Mkdir :: "'s FS subFS \<Rightarrow> string \<Rightarrow> FileMode \<Rightarrow> 's \<Rightarrow> error option \<times> 's" where
  "subFS_Mkdir f name perm s =
     (case fullName f ''mkdir'' name of
        (full, Some err) \<Rightarrow> (Some err, s)
      | (full, None) \<Rightarrow> (case Mkdir (fsys f) full perm s of (err, s1) \<Rightarrow> (fixErr f err, s1)))"

definition subFS_MkdirAll :: "'s FS subFS \<Rightarrow> string \<Rightarrow> FileMode \<Rightarrow> 's \<Rightarrow> error option \<times> 's" where
  "subFS_MkdirAll f name perm s =
     (case fullName f ''MkdirAll'' name of
        (full, Some err) \<Rightarrow> (Some err, s)
      | (full, None) \<Rightarrow> (case MkdirAll (fsys f) full perm s of (err, s1) \<Rightarrow> (fixErr f err, s1)))"

definition subFS_Rename :: "'s FS subFS \<Rightarrow> string \<Rightarrow> string \<Rightarrow> 's \<Rightarrow> error option \<times> 's" where
  "subFS_Rename f oldname newname s =
     (case fullName f ''rename'' oldname of
        (fullOld, Some err) \<Rightarrow> (Some err, s)
      | (fullOld, None) \<Rightarrow>
          (case fullName f ''rename'' newname of
             (fullNew, Some err) \<Rightarrow> (Some err, s)
           | (fullNew, None) \<Rightarrow>
               (case Rename (fsys f) fullOld fullNew s of (err, s1) \<Rightarrow> (fixErr f err, s1))))"

definition subFS_Chmod :: "'s FS subFS \<Rightarrow> string \<Rightarrow> FileMode \<Rightarrow> 's \<Rightarrow> error option \<times> 's" where
  "subFS_Chmod f name mode s =
     (case fullName f ''chmod'' name of
        (full, Some err) \<Rightarrow> (Some err, s)
      | (full, None) \<Rightarrow> (case Chmod (fsys f) full mode s of (err, s1) \<Rightarrow> (fixErr f err, s1)))"

definition subFS_Chown :: "'s FS subFS \<Rightarrow> string \<Rightarrow> int \<Rightarrow> int \<Rightarrow> 's \<Rightarrow> error option \<times> 's" where
  "subFS_Chown f name uid gid s =
     (case fullName f ''chown'' name of
        (full, Some err) \<Rightarrow> (Some err, s)
      | (full, None) \<Rightarrow> (case Chown (fsys f) full uid gid s of (err, s1) \<Rightarrow> (fixErr f err, s1)))"

definition subFS_Chtimes :: "'s FS subFS \<Rightarrow> string \<Rightarrow> int \<Rightarrow> int \<Rightarrow> 's \<Rightarrow> error option \<times> 's" where
  "subFS_Chtimes f name atime mtime s =
     (case fullName f ''chtimes'' name of
        (full, Some err) \<Rightarrow> (Some err, s)
      | (full, None) \<Rightarrow>
          (case Chtimes (fsys f) full atime mtime s of (err, s1) \<Rightarrow> (fixErr f err, s1)))"

definition subFS_Remove :: "'s FS subFS \<Rightarrow> string \<Rightarrow> 's \<Rightarrow> error option \<times> 's" where
  "subFS_Remove f name s =
     (case fullName f ''remove'' name of
        (full, Some err) \<Rightarrow> (Some err, s)
      | (full, None) \<Rightarrow> (case Remove (fsys f) full s of (err, s1) \<Rightarrow> (fixErr f err, s1)))"

definition subFS_RemoveAll :: "'s FS subFS \<Rightarrow> string \<Rightarrow> 's \<Rightarrow> error option \<times> 's" where
  "subFS_RemoveAll f name s =
     (case fullName f ''RemoveAll'' name of
        (full, Some err) \<Rightarrow> (Some err, s)
      | (full, None) \<Rightarrow> (case RemoveAll (fsys f) full s of (err, s1) \<Rightarrow> (fixErr f err, s1)))"

definition subFS_Symlink :: "'s FS subFS \<Rightarrow> string \<Rightarrow> string \<Rightarrow> 's \<Rightarrow> error option \<times> 's" where
  "subFS_Symlink f oldname newname s =
     (case fullName f ''symlink'' oldname of
        (fullOld, Some err) \<Rightarrow> (Some err, s)
      | (fullOld, None) \<Rightarrow>
          (case fullName f ''symlink'' newname of
             (fullNew, Some err) \<Rightarrow> (Some err, s)
           | (fullNew, None) \<Rightarrow>
               (case Symlink (fsys f) fullOld fullNew s of (err, s1) \<Rightarrow> (fixErr f err, s1))))"

definition subFS_Link :: "'s FS subFS \<Rightarrow> string \<Rightarrow> string \<Rightarrow> 's \<Rightarrow> error option \<times> 's" where
  "subFS_Link f oldname newname s =
     (case fullName f ''link'' oldname of
        (fullOld, Some err) \<Rightarrow> (Some err, s)
      | (fullOld, None) \<Rightarrow>
          (case fullName f ''link'' newname of
             (fullNew, Some err) \<Rightarrow> (Some err, s)
           | (fullNew, None) \<Rightarrow>
               (case Link (fsys f) fullOld fullNew s of (err, s1) \<Rightarrow> (fixErr f err, s1))))"


subsection \<open>Sub and subFS.Sub, on references\<close>

text \<open>
  A value of the interface type FS: nil, a store that is not a \<open>*subFS\<close> (named by a
  number), or a pointer to a subFS struct. The memory is the list of the subFS structs
  allocated so far, with the world \<open>'s\<close> of the stores; \<open>&subFS{...}\<close> appends a struct and
  returns its index. Two interface values are the same reference when they are equal.
\<close>

datatype iface = NilFS | StoreFS nat | SubFSPtr nat

type_synonym 's memory = "iface subFS list \<times> 's"

definition newSubFS :: "iface subFS \<Rightarrow> 's memory \<Rightarrow> iface \<times> 's memory" where
  "newSubFS obj m = (SubFSPtr (length (fst m)), (fst m @ [obj], snd m))"

text \<open>
  The method Sub of \<open>*subFS\<close>. Reading \<open>f.dir\<close> through a pointer that holds no struct is a
  panic, the value \<open>None\<close>.
\<close>

definition subFS_Sub :: "nat \<Rightarrow> string \<Rightarrow> 's memory \<Rightarrow> ((iface \<times> error option) \<times> 's memory) option" where
  "subFS_Sub f dir1 m =
     (if dir1 = ''.'' then Some ((SubFSPtr f, None), m)
      else if length (fst m) \<le> f then None
      else
        case fullName (fst m ! f) ''sub'' dir1 of
          (full, Some err) \<Rightarrow> Some ((NilFS, Some err), m)
        | (full, None) \<Rightarrow>
            (case newSubFS \<lparr> fsys = fsys (fst m ! f), dir = full \<rparr> m of
               (r, m1) \<Rightarrow> Some ((r, None), m1)))"

text \<open>
  The function Sub. \<open>storeSub n\<close> is the Sub method of store \<open>n\<close> when that store implements
  SubFS (the type assertion \<open>fsys.(SubFS)\<close>); a \<open>*subFS\<close> always does, a nil interface never.
\<close>

definition Sub :: "(nat \<Rightarrow> (string \<Rightarrow> 's memory \<Rightarrow> (iface \<times> error option) \<times> 's memory) option)
    \<Rightarrow> iface \<Rightarrow> string \<Rightarrow> 's memory \<Rightarrow> ((iface \<times> error option) \<times> 's memory) option" where
  "Sub storeSub fsys1 dir1 m =
     (if \<not> ValidPath dir1 then Some ((NilFS, Some (PathError ''sub'' dir1 ErrInvalid)), m)
      else if dir1 = ''.'' then Some ((fsys1, None), m)
      else
        case fsys1 of
          SubFSPtr f \<Rightarrow> subFS_Sub f dir1 m
        | StoreFS n \<Rightarrow>
            (case storeSub n of
               Some sub \<Rightarrow> Some (sub dir1 m)
             | None \<Rightarrow>
                 (case newSubFS \<lparr> fsys = fsys1, dir = dir1 \<rparr> m of
                    (r, m1) \<Rightarrow> Some ((r, None), m1)))
        | NilFS \<Rightarrow>
            (case newSubFS \<lparr> fsys = fsys1, dir = dir1 \<rparr> m of
               (r, m1) \<Rightarrow> Some ((r, None), m1)))"

section \<open>The confined root (package os)\<close>

definition rootMaxSymlinks :: nat where
  "rootMaxSymlinks = 8"

record osFile =
  fd :: nat
  appendMode :: bool

text \<open>
  A Root \<open>r\<close>, seen from root.go: what the functions of package os that are not among the
  sources do when called with \<open>r\<close>, on a world \<open>'s\<close>, and the flag constants of package
  syscall. rootOpenFileNolog returns a file or an error, never both nil. The octal masks
  of the source are written in hexadecimal: \<open>0o777\<close> is \<open>0x1FF\<close>, \<open>0o666\<close> is \<open>0x1B6\<close>.
\<close>

record 's Root =
  O_RDONLY :: int
  O_RDWR :: int
  O_CREATE :: int
  O_TRUNC :: int
  O_APPEND :: int
  logOpen :: "string \<Rightarrow> 's \<Rightarrow> 's"
  rootOpenFileNolog :: "string \<Rightarrow> int \<Rightarrow> FileMode \<Rightarrow> 's \<Rightarrow> (error + osFile) \<times> 's"
  rootMkdir :: "string \<Rightarrow> FileMode \<Rightarrow> 's \<Rightarrow> error option \<times> 's"
  rootMkdirAll :: "string \<Rightarrow> FileMode \<Rightarrow> 's \<Rightarrow> error option \<times> 's"
  rootRename :: "string \<Rightarrow> string \<Rightarrow> 's \<Rightarrow> error option \<times> 's"
  rootLink :: "string \<Rightarrow> string \<Rightarrow> 's \<Rightarrow> error option \<times> 's"
  rootSymlink :: "string \<Rightarrow> string \<Rightarrow> 's \<Rightarrow> error option \<times> 's"
  fileReadDir :: "osFile \<Rightarrow> int \<Rightarrow> 's \<Rightarrow> (DirEntry list \<times> error option) \<times> 's"
  fileClose :: "osFile \<Rightarrow> 's \<Rightarrow> error option \<times> 's"

definition Root_OpenFile :: "'s Root \<Rightarrow> string \<Rightarrow> int \<Rightarrow> FileMode \<Rightarrow> 's \<Rightarrow> (error + osFile) \<times> 's" where
  "Root_OpenFile r name flag perm s =
     (if perm AND 0x1FF \<noteq> perm
      then (Inl (PathError ''openat'' name (ErrorsNew ''unsupported file mode'')), s)
      else
        case rootOpenFileNolog r name flag perm (logOpen r name s) of
          (Inl err, s1) \<Rightarrow> (Inl err, s1)
        | (Inr rf, s1) \<Rightarrow> (Inr (rf\<lparr>appendMode := (flag AND O_APPEND r \<noteq> 0)\<rparr>), s1))"

definition Root_Open :: "'s Root \<Rightarrow> string \<Rightarrow> 's \<Rightarrow> (error + osFile) \<times> 's" where
  "Root_Open r name s = Root_OpenFile r name (O_RDONLY r) 0 s"

definition Root_Create :: "'s Root \<Rightarrow> string \<Rightarrow> 's \<Rightarrow> (error + osFile) \<times> 's" where
  "Root_Create r name s = Root_OpenFile r name (O_RDWR r OR O_CREATE r OR O_TRUNC r) 0x1B6 s"

definition Root_Mkdir :: "'s Root \<Rightarrow> string \<Rightarrow> FileMode \<Rightarrow> 's \<Rightarrow> error option \<times> 's" where
  "Root_Mkdir r name perm s =
     (if perm AND 0x1FF \<noteq> perm
      then (Some (PathError ''mkdirat'' name (ErrorsNew ''unsupported file mode'')), s)
      else rootMkdir r name perm s)"

definition Root_MkdirAll :: "'s Root \<Rightarrow> string \<Rightarrow> FileMode \<Rightarrow> 's \<Rightarrow> error option \<times> 's" where
  "Root_MkdirAll r name perm s =
     (if perm AND 0x1FF \<noteq> perm
      then (Some (PathError ''mkdirat'' name (ErrorsNew ''unsupported file mode'')), s)
      else rootMkdirAll r name perm s)"

definition Root_Rename :: "'s Root \<Rightarrow> string \<Rightarrow> string \<Rightarrow> 's \<Rightarrow> error option \<times> 's" where
  "Root_Rename r oldname newname s = rootRename r oldname newname s"

definition Root_Link :: "'s Root \<Rightarrow> string \<Rightarrow> string \<Rightarrow> 's \<Rightarrow> error option \<times> 's" where
  "Root_Link r oldname newname s = rootLink r oldname newname s"

definition Root_Symlink :: "'s Root \<Rightarrow> string \<Rightarrow> string \<Rightarrow> 's \<Rightarrow> error option \<times> 's" where
  "Root_Symlink r oldname newname s = rootSymlink r oldname newname s"

subsection \<open>rootFS, the store that Root.FS returns\<close>

definition isValidRootFSPath :: "platform \<Rightarrow> string \<Rightarrow> bool" where
  "isValidRootFSPath pf name =
     (if \<not> ValidPath name then False
      else if windows pf \<and> CHR 0x5C \<in> set name then False
      else True)"

definition rootFS_Open :: "platform \<Rightarrow> 's Root \<Rightarrow> string \<Rightarrow> 's \<Rightarrow> (error + osFile) \<times> 's" where
  "rootFS_Open pf r name s =
     (if \<not> isValidRootFSPath pf name then (Inl (PathError ''open'' name ErrInvalid), s)
      else
        case Root_Open r name s of
          (Inl err, s1) \<Rightarrow> (Inl err, s1)
        | (Inr f, s1) \<Rightarrow> (Inr f, s1))"

text \<open>
  Modelled from the spec: \<open>bytealg.CompareString\<close> (package internal/bytealg is not among
  the sources), the byte-wise order of section 4.2: negative, zero or positive as \<open>a\<close> is
  before, equal to or after \<open>b\<close>.
\<close>

fun CompareString :: "string \<Rightarrow> string \<Rightarrow> int" where
  "CompareString [] [] = 0"
| "CompareString [] (y # ys) = - 1"
| "CompareString (x # xs) [] = 1"
| "CompareString (x # xs) (y # ys) =
     (if (of_char x :: nat) < of_char y then - 1
      else if (of_char y :: nat) < of_char x then 1
      else CompareString xs ys)"

text \<open>
  Modelled from the spec: \<open>slices.SortFunc\<close> (package slices is not among the sources),
  which puts a slice in ascending order by \<open>cmp\<close>. Here by insertion: each element moves
  back past the elements before it that are greater. \<open>insertBack\<close> works on the sorted
  part in reverse.
\<close>

fun insertBack :: "('a \<Rightarrow> 'a \<Rightarrow> int) \<Rightarrow> 'a \<Rightarrow> 'a list \<Rightarrow> 'a list" where
  "insertBack cmp x [] = [x]"
| "insertBack cmp x (y # ys) = (if cmp x y < 0 then y # insertBack cmp x ys else x # y # ys)"

definition SortFunc :: "'a list \<Rightarrow> ('a \<Rightarrow> 'a \<Rightarrow> int) \<Rightarrow> 'a list" where
  "SortFunc data cmp = rev (foldl (\<lambda>done x. insertBack cmp x done) [] data)"

definition rootFS_ReadDir :: "platform \<Rightarrow> 's Root \<Rightarrow> string \<Rightarrow> 's \<Rightarrow> (DirEntry list \<times> error option) \<times> 's" where
  "rootFS_ReadDir pf r name s =
     (if \<not> isValidRootFSPath pf name then (([], Some (PathError ''readdir'' name ErrInvalid)), s)
      else
        case Root_Open r name s of
          (Inl err, s1) \<Rightarrow> (([], Some err), s1)
        | (Inr f, s1) \<Rightarrow>
            (case fileReadDir r f (- 1) s1 of
               ((dirs, err), s2) \<Rightarrow>
                 let dirs1 = SortFunc dirs (\<lambda>a b. CompareString (Name a) (Name b))
                 in ((dirs1, err), snd (fileClose r f s2))))"

definition rootFS_Rename :: "platform \<Rightarrow> 's Root \<Rightarrow> string \<Rightarrow> string \<Rightarrow> 's \<Rightarrow> error option \<times> 's" where
  "rootFS_Rename pf r oldname newname s =
     (if \<not> (isValidRootFSPath pf oldname \<or> isValidRootFSPath pf newname)
      then (Some (LinkError ''rename'' oldname newname ErrInvalid), s)
      else Root_Rename r oldname newname s)"

definition rootFS_Link :: "platform \<Rightarrow> 's Root \<Rightarrow> string \<Rightarrow> string \<Rightarrow> 's \<Rightarrow> error option \<times> 's" where
  "rootFS_Link pf r oldname newname s =
     (if \<not> isValidRootFSPath pf oldname then (Some (PathError ''link'' oldname ErrInvalid), s)
      else if \<not> isValidRootFSPath pf newname then (Some (PathError ''link'' newname ErrInvalid), s)
      else Root_Link r oldname newname s)"

definition rootFS_Symlink :: "platform \<Rightarrow> 's Root \<Rightarrow> string \<Rightarrow> string \<Rightarrow> 's \<Rightarrow> error option \<times> 's" where
  "rootFS_Symlink pf r oldname newname s =
     (if \<not> isValidRootFSPath pf oldname then (Some (PathError ''symlink'' oldname ErrInvalid), s)
      else if \<not> isValidRootFSPath pf newname then (Some (PathError ''symlink'' newname ErrInvalid), s)
      else Root_Symlink r oldname newname s)"


subsection \<open>Resolution of a name beneath the root\<close>

text \<open>
  Modelled from the spec: the resolution engine of the confined root (\<open>doInRoot\<close> and the
  platform files are not among the sources; root.go holds only the bound rootMaxSymlinks).
  Sections 3 and 4.2: the state of one resolution is a current directory handle, the queue
  of remaining components, a symlink-follow counter bounded by the fixed maximum, and a
  flag for whether the final component must be a directory. Components are resolved one
  at a time beneath the current handle; a symbolic link's target is split by the
  PathResolver and its components are spliced in front of the remaining queue, from the
  same current handle, the counter being incremented and checked; an absolute target and
  a step through \<open>..\<close> fail with the escape error; trailing separator text forces the
  final component to be a directory. Links are followed, except where the operation works
  on the link itself rather than its target: Lstat, Readlink, Symlink's own target and
  Link's source.

  A directory tree gives, for a directory handle and a component, the entry of that name.
\<close>

datatype entry = Dir nat | Regular | SymlinkTo string

type_synonym tree = "nat \<Rightarrow> string \<Rightarrow> entry option"

text \<open>
  The operations of section 4.2, one for each name that an operation resolves: Rename,
  Link and Symlink resolve two.
\<close>

datatype operation =
    OpOpen | OpStat | OpLstat | OpReadDir | OpMkdir | OpRemove | OpChmod | OpReadlink
  | OpOpenRoot | OpRenameOld | OpRenameNew | OpLinkSource | OpLinkNew
  | OpSymlinkTarget | OpSymlinkNew

definition onLinkItself :: "operation \<Rightarrow> bool" where
  "onLinkItself op \<longleftrightarrow>
     op = OpLstat \<or> op = OpReadlink \<or> op = OpSymlinkTarget \<or> op = OpLinkSource"

record rstate =
  cur :: nat
  queue :: "string list"
  mustDir :: bool

text \<open>
  One step on the first component of the queue: the resolution ends (\<open>Done\<close>), goes on
  without following a link (\<open>Walk\<close>), or would go on by following one (\<open>Follow\<close>).
  \<open>Panic\<close> is a panic of splitPathInRoot. A link in final position is the result when the
  operation works on the link itself, unless trailing separators make it a reference to a
  directory.
\<close>

datatype step = Panic | Done "error + entry" | Walk rstate | Follow rstate

definition resolveStep :: "platform \<Rightarrow> tree \<Rightarrow> operation \<Rightarrow> rstate \<Rightarrow> step" where
  "resolveStep pf t op st =
     (case queue st of
        [] \<Rightarrow> Done (Inr (Dir (cur st)))
      | c # rest \<Rightarrow>
          if c = ''..'' then Done (Inl errPathEscapes)
          else if c = ''.'' then Walk (st\<lparr>queue := rest\<rparr>)
          else
            case t (cur st) c of
              None \<Rightarrow> Done (Inl ErrNotExist)
            | Some (Dir h) \<Rightarrow> Walk (st\<lparr>cur := h, queue := rest\<rparr>)
            | Some Regular \<Rightarrow>
                if rest = [] \<and> \<not> mustDir st then Done (Inr Regular) else Done (Inl ENOTDIR)
            | Some (SymlinkTo target) \<Rightarrow>
                if rest = [] \<and> onLinkItself op \<and> \<not> mustDir st
                then Done (Inr (SymlinkTo target))
                else
                  (case splitPathInRoot pf target [] rest of
                     None \<Rightarrow> Panic
                   | Some (parts, sep, Some err) \<Rightarrow> Done (Inl err)
                   | Some (parts, sep, None) \<Rightarrow>
                       Follow (st\<lparr>queue := parts,
                                  mustDir := (if rest = [] then mustDir st \<or> sep \<noteq> []
                                              else mustDir st)\<rparr>)))"

lemma resolveStep_Walk_shorter:
  "resolveStep pf t op st = Walk st1 \<Longrightarrow> length (queue st1) < length (queue st)"
  by (auto simp: resolveStep_def
      split: list.splits if_splits option.splits entry.splits prod.splits)

text \<open>
  The resolution from a state, with the number of links followed so far. It returns the
  outcome and the number of links it has followed; \<open>None\<close> is a panic.
\<close>

function resolveFrom :: "platform \<Rightarrow> tree \<Rightarrow> operation \<Rightarrow> rstate \<Rightarrow> nat
    \<Rightarrow> (error + entry) option \<times> nat" where
  "resolveFrom pf t op st symlinks =
     (case resolveStep pf t op st of
        Panic \<Rightarrow> (None, symlinks)
      | Done r \<Rightarrow> (Some r, symlinks)
      | Walk st1 \<Rightarrow> resolveFrom pf t op st1 symlinks
      | Follow st1 \<Rightarrow>
          if symlinks + 1 > rootMaxSymlinks then (Some (Inl ELOOP), symlinks)
          else resolveFrom pf t op st1 (symlinks + 1))"
  by pat_completeness auto
termination
proof (relation "measures [\<lambda>(pf, t, op, st, n). rootMaxSymlinks + 1 - n,
                           \<lambda>(pf, t, op, st, n). length (queue st)]", goal_cases)
  case 1
  show ?case by simp
next
  case (2 pf t op st symlinks st1)
  then show ?case by (simp add: resolveStep_Walk_shorter)
next
  case (3 pf t op st symlinks st1)
  then have "symlinks + 1 \<le> rootMaxSymlinks" by simp
  then have "rootMaxSymlinks + 1 - (symlinks + 1) < rootMaxSymlinks + 1 - symlinks" by arith
  then show ?case by simp
qed

declare resolveFrom.simps [simp del]

definition resolveInRoot :: "platform \<Rightarrow> tree \<Rightarrow> operation \<Rightarrow> nat \<Rightarrow> string
    \<Rightarrow> (error + entry) option \<times> nat" where
  "resolveInRoot pf t op root name =
     (case splitPathInRoot pf name [] [] of
        None \<Rightarrow> (None, 0)
      | Some (parts, sep, Some err) \<Rightarrow> (Some (Inl err), 0)
      | Some (parts, sep, None) \<Rightarrow>
          resolveFrom pf t op \<lparr> cur = root, queue = parts, mustDir = (sep \<noteq> []) \<rparr> 0)"

text \<open>
  The walk that follows links without counting them: the state after \<open>n\<close> steps, or
  \<open>None\<close> when the resolution has ended before. A resolution keeps following links
  without end when this walk has a state after every number of steps. It does so, for one,
  when the walk is, after \<open>k\<close> steps, in a state that it is in again \<open>m > 0\<close> steps later.
\<close>

fun walk :: "platform \<Rightarrow> tree \<Rightarrow> operation \<Rightarrow> nat \<Rightarrow> rstate \<Rightarrow> rstate option" where
  "walk pf t op 0 st = Some st"
| "walk pf t op (Suc n) st =
     (case resolveStep pf t op st of
        Walk st1 \<Rightarrow> walk pf t op n st1
      | Follow st1 \<Rightarrow> walk pf t op n st1
      | _ \<Rightarrow> None)"

definition cyclicAt :: "platform \<Rightarrow> tree \<Rightarrow> operation \<Rightarrow> rstate \<Rightarrow> nat \<Rightarrow> nat \<Rightarrow> bool" where
  "cyclicAt pf t op st k m =
     (0 < m \<and> (case walk pf t op k st of None \<Rightarrow> False
                | Some st1 \<Rightarrow> walk pf t op m st1 = Some st1))"

text \<open>
  The links that the walk follows in its first \<open>n\<close> steps.
\<close>

fun followsIn :: "platform \<Rightarrow> tree \<Rightarrow> operation \<Rightarrow> nat \<Rightarrow> rstate \<Rightarrow> nat" where
  "followsIn pf t op 0 st = 0"
| "followsIn pf t op (Suc n) st =
     (case resolveStep pf t op st of
        Walk st1 \<Rightarrow> followsIn pf t op n st1
      | Follow st1 \<Rightarrow> Suc (followsIn pf t op n st1)
      | _ \<Rightarrow> 0)"

section \<open>The PathResolver as the specification words it\<close>

text \<open>
  The components of a path: the maximal runs of characters that are not separators.
\<close>

function fields :: "(char \<Rightarrow> bool) \<Rightarrow> string \<Rightarrow> string list" where
  "fields sep s =
     (let r = dropWhile sep s
      in if r = [] then []
         else takeWhile (\<lambda>c. \<not> sep c) r # fields sep (dropWhile (\<lambda>c. \<not> sep c) r))"
  by pat_completeness auto
termination
proof (relation "measure (\<lambda>(sep, s). length s)", goal_cases)
  case 1
  show ?case by simp
next
  case (2 sep s r)
  then have nsep: "\<not> sep (hd r)" using hd_dropWhile [of sep s] by simp
  from 2 have "r \<noteq> []" by simp
  then obtain a l where r: "r = a # l" by (auto simp: neq_Nil_conv)
  with nsep have "dropWhile (\<lambda>c. \<not> sep c) r = dropWhile (\<lambda>c. \<not> sep c) (tl r)"
    by simp
  moreover have "length (dropWhile (\<lambda>c. \<not> sep c) (tl r)) \<le> length (tl r)"
    by (rule length_dropWhile_le)
  ultimately have "length (dropWhile (\<lambda>c. \<not> sep c) r) \<le> length (tl r)"
    by simp
  also from r have "\<dots> < length r" by simp
  also from 2 have "\<dots> \<le> length s" by (simp add: length_dropWhile_le)
  finally show ?case by simp
qed

declare fields.simps [simp del]

text \<open>The separators that follow the final component.\<close>

definition trailingSeparators :: "(char \<Rightarrow> bool) \<Rightarrow> string \<Rightarrow> string" where
  "trailingSeparators sep s = rev (takeWhile sep (rev s))"

text \<open>
  Section 4.1: a component equal to \<open>.\<close> is dropped unless it is the last component and
  no suffix is being appended; the result is the prefix, the components kept, the suffix.
\<close>

definition splitSpec :: "(char \<Rightarrow> bool) \<Rightarrow> string \<Rightarrow> string list \<Rightarrow> string list \<Rightarrow> string list" where
  "splitSpec sep s prefix suffix =
     (let cs = fields sep s
      in prefix @ filter (\<lambda>c. c \<noteq> ''.'') (butlast cs)
           @ (if last cs = ''.'' \<and> suffix \<noteq> [] then [] else [last cs]) @ suffix)"

text \<open>The components kept when no suffix is appended: every \<open>.\<close> but a final one is dropped.\<close>

definition dropDots :: "string list \<Rightarrow> string list" where
  "dropDots cs = filter (\<lambda>c. c \<noteq> ''.'') (butlast cs) @ [last cs]"

section \<open>A store, a root and a tree for the examples\<close>

text \<open>
  The world of the examples is the log of the calls that reached the store or the root:
  the name of the operation and the names it was given.
\<close>

datatype call = Call string "string list"

text \<open>
  A store that holds the link \<open>x/l\<close> to \<open>/etc/passwd\<close> and the files \<open>x/1.txt\<close> and
  \<open>x/2.txt\<close>; its Glob answers the pattern \<open>x/*\<close> with a match outside \<open>x\<close>, the
  pattern \<open>x/[.]*\<close> with the directory \<open>x\<close> itself, and the pattern \<open>x/?*\<close> with a match
  in the directory \<open>xy\<close>.
\<close>

definition demoStore :: "call list FS" where
  "demoStore = \<lparr>
     Open = (\<lambda>name s. ((None, Some (PathError ''open'' name ErrNotExist)), s @ [Call ''open'' [name]])),
     OpenFileFS = None,
     Create = (\<lambda>name s. ((None, Some (PathError ''create'' name ErrPermission)), s @ [Call ''create'' [name]])),
     Stat = (\<lambda>name s. ((None, Some (PathError ''stat'' name ErrNotExist)), s @ [Call ''stat'' [name]])),
     ReadDir = (\<lambda>name s. (([], Some (PathError ''readdir'' name ErrNotExist)), s @ [Call ''readdir'' [name]])),
     ReadFile = (\<lambda>name s. (([], Some (PathError ''readfile'' name ErrNotExist)), s @ [Call ''readfile'' [name]])),
     ReadLink = (\<lambda>name s.
       ((if name = ''x/l'' then (''/etc/passwd'', None)
         else ([], Some (PathError ''readlink'' name ErrNotExist))), s @ [Call ''readlink'' [name]])),
     Lstat = (\<lambda>name s. ((None, Some (PathError ''lstat'' name ErrNotExist)), s @ [Call ''lstat'' [name]])),
     Glob = (\<lambda>pattern s.
       ((if pattern = ''x/*.txt'' then [''x/1.txt'', ''x/2.txt'']
         else if pattern = ''x/*'' then [''x/1.txt'', ''y/3.txt'']
         else if pattern = ''x/[.]*'' then [''x'', ''x/1.txt'']
         else if pattern = ''x/?*'' then [''x/1.txt'', ''xy/2.txt'']
         else [], None), s @ [Call ''glob'' [pattern]])),
     Mkdir = (\<lambda>name perm s. (None, s @ [Call ''mkdir'' [name]])),
     MkdirAll = (\<lambda>name perm s. (None, s @ [Call ''mkdirall'' [name]])),
     Rename = (\<lambda>oldname newname s. (None, s @ [Call ''rename'' [oldname, newname]])),
     Chmod = (\<lambda>name mode s. (None, s @ [Call ''chmod'' [name]])),
     Chown = (\<lambda>name uid gid s. (None, s @ [Call ''chown'' [name]])),
     Chtimes = (\<lambda>name atime mtime s. (None, s @ [Call ''chtimes'' [name]])),
     Remove = (\<lambda>name s. (None, s @ [Call ''remove'' [name]])),
     RemoveAll = (\<lambda>name s. (None, s @ [Call ''removeall'' [name]])),
     Symlink = (\<lambda>oldname newname s. (None, s @ [Call ''symlink'' [oldname, newname]])),
     Link = (\<lambda>oldname newname s. (None, s @ [Call ''link'' [oldname, newname]])) \<rparr>"

text \<open>
  A root whose directory \<open>d\<close> lists the entries \<open>b\<close>, \<open>a\<close>, \<open>c\<close> in that order and which
  holds nothing else; no test logger is installed. The flag values are those of Linux.
\<close>

definition demoRoot :: "call list Root" where
  "demoRoot = \<lparr>
     O_RDONLY = 0, O_RDWR = 2, O_CREATE = 0x40, O_TRUNC = 0x200, O_APPEND = 0x400,
     logOpen = (\<lambda>name s. s),
     rootOpenFileNolog = (\<lambda>name flag perm s.
       ((if name = ''d'' then Inr \<lparr> fd = 3, appendMode = False \<rparr>
         else Inl (PathError ''openat'' name ErrNotExist)), s @ [Call ''openat'' [name]])),
     rootMkdir = (\<lambda>name perm s. (None, s @ [Call ''mkdirat'' [name]])),
     rootMkdirAll = (\<lambda>name perm s. (None, s @ [Call ''mkdirat'' [name]])),
     rootRename = (\<lambda>oldname newname s. (None, s @ [Call ''renameat'' [oldname, newname]])),
     rootLink = (\<lambda>oldname newname s. (None, s @ [Call ''linkat'' [oldname, newname]])),
     rootSymlink = (\<lambda>oldname newname s. (None, s @ [Call ''symlinkat'' [oldname, newname]])),
     fileReadDir = (\<lambda>f n s.
       (([\<lparr> Name = ''b'', IsDir = False \<rparr>, \<lparr> Name = ''a'', IsDir = True \<rparr>,
          \<lparr> Name = ''c'', IsDir = False \<rparr>], None), s @ [Call ''readdir'' []])),
     fileClose = (\<lambda>f s. (None, s @ [Call ''close'' []])) \<rparr>"

text \<open>
  A tree whose root directory 0 holds the link \<open>loop\<close> to itself, the link \<open>a\<close> to
  \<open>b/x\<close> and the directory \<open>b\<close>, in which \<open>x\<close> and \<open>y\<close> are links to each other; the
  link \<open>g\<close> to \<open>g/b\<close>, beneath itself; and the link \<open>abs\<close> to \<open>/abs\<close>, its own name
  when the root is the directory \<open>/\<close>.
\<close>

definition loopTree :: tree where
  "loopTree = (\<lambda>h c.
     if h = 0 \<and> c = ''loop'' then Some (SymlinkTo ''loop'')
     else if h = 0 \<and> c = ''a'' then Some (SymlinkTo ''b/x'')
     else if h = 0 \<and> c = ''b'' then Some (Dir 1)
     else if h = 1 \<and> c = ''x'' then Some (SymlinkTo ''y'')
     else if h = 1 \<and> c = ''y'' then Some (SymlinkTo ''x'')
     else if h = 0 \<and> c = ''g'' then Some (SymlinkTo ''g/b'')
     else if h = 0 \<and> c = ''abs'' then Some (SymlinkTo ''/abs'')
     else None)"


section \<open>Properties\<close>

subsection \<open>Permission bits of Root.OpenFile, Root.Mkdir and Root.MkdirAll\<close>

text \<open>
  Claim C5. For every name, flag and permission value, when the permission has a bit
  outside the nine least-significant ones (\<open>perm & 0o777 != perm\<close>), Root.OpenFile,
  Root.Mkdir and Root.MkdirAll return the unsupported-file-mode error and leave the world as
  it was: neither the test log nor any operation of the root is reached.
\<close>

theorem Root_perm_outside_nine_bits:
  assumes "perm AND 0x1FF \<noteq> perm"
  shows "Root_OpenFile r name flag perm s
           = (Inl (PathError ''openat'' name (ErrorsNew ''unsupported file mode'')), s)
       \<and> Root_Mkdir r name perm s
           = (Some (PathError ''mkdirat'' name (ErrorsNew ''unsupported file mode'')), s)
       \<and> Root_MkdirAll r name perm s
           = (Some (PathError ''mkdirat'' name (ErrorsNew ''unsupported file mode'')), s)"
  using assms by (simp add: Root_OpenFile_def Root_Mkdir_def Root_MkdirAll_def)

theorem Root_perm_outside_nine_bits_witness:
  "(0x200 :: FileMode) AND 0x1FF \<noteq> 0x200
   \<and> Root_OpenFile demoRoot ''d'' 0 0x200 []
       = (Inl (PathError ''openat'' ''d'' (ErrorsNew ''unsupported file mode'')), [])
   \<and> Root_Mkdir demoRoot ''d'' 0x200 []
       = (Some (PathError ''mkdirat'' ''d'' (ErrorsNew ''unsupported file mode'')), [])
   \<and> Root_MkdirAll demoRoot ''d'' 0x200 []
       = (Some (PathError ''mkdirat'' ''d'' (ErrorsNew ''unsupported file mode'')), [])"
proof -
  have h: "(0x200 :: FileMode) AND 0x1FF \<noteq> 0x200" by simp
  from Root_perm_outside_nine_bits [OF h, of demoRoot "''d''" 0 "[]"] h show ?thesis by simp
qed

subsection \<open>The subtree at the directory itself\<close>

lemma ValidPath_dot: "ValidPath ''.''"
  by (simp add: ValidPath_def)

text \<open>
  Claim C8. Deriving a subtree at \<open>.\<close> returns the store itself: \<open>Sub(fsys, ".")\<close> returns
  the reference \<open>fsys\<close> and \<open>subFS.Sub(".")\<close> returns the receiver, and the memory and the
  world are as before: no struct is allocated and no store is called. This holds for every
  store, whether or not it implements SubFS, and for every memory.
\<close>

theorem Sub_dot_identity:
  "Sub storeSub fsys1 ''.'' m = Some ((fsys1, None), m)
   \<and> subFS_Sub f ''.'' m = Some ((SubFSPtr f, None), m)"
  by (simp add: Sub_def subFS_Sub_def ValidPath_dot)

subsection \<open>The target that subFS.ReadLink returns\<close>

text \<open>
  Claim C10. Whenever subFS.ReadLink returns no error, its whole result, the target and
  the world, is the result of the wrapped store's ReadLink on the prefixed name: the target
  is returned as the store gave it, with nothing prepended or stripped.
\<close>

theorem subFS_ReadLink_target_unchanged:
  assumes "snd (fst (subFS_ReadLink f name s)) = None"
  shows "subFS_ReadLink f name s = ReadLink (fsys f) (path_Join (dir f) name) s"
  using assms
  by (auto simp: subFS_ReadLink_def fullName_def fixErr_def
      split: prod.splits option.splits if_splits error.splits bool.splits)

theorem subFS_ReadLink_target_unchanged_witness:
  "snd (fst (subFS_ReadLink \<lparr> fsys = demoStore, dir = ''x'' \<rparr> ''l'' [])) = None
   \<and> subFS_ReadLink \<lparr> fsys = demoStore, dir = ''x'' \<rparr> ''l'' []
       = ((''/etc/passwd'', None), [Call ''readlink'' [''x/l'']])"
proof -
  have h: "snd (fst (subFS_ReadLink \<lparr> fsys = demoStore, dir = ''x'' \<rparr> ''l'' [])) = None"
    by (simp add: subFS_ReadLink_def fullName_def ValidPath_def path_Join_def demoStore_def)
  from subFS_ReadLink_target_unchanged [OF h] h show ?thesis
    by (simp add: path_Join_def demoStore_def)
qed

subsection \<open>The components that splitPathInRoot returns\<close>

lemma fields_start:
  assumes "s \<noteq> []" "\<not> sep (hd s)"
  shows "fields sep s = takeWhile (\<lambda>c. \<not> sep c) s # fields sep (dropWhile (\<lambda>c. \<not> sep c) s)"
proof -
  from assms have "dropWhile sep s = s" by (cases s) auto
  with assms show ?thesis by (subst fields.simps) (simp add: Let_def)
qed

lemma fields_only_seps: "dropWhile sep s = [] \<Longrightarrow> fields sep s = []"
  by (subst fields.simps) simp

lemma fields_skip: "fields sep (dropWhile sep s) = fields sep s"
  by (subst fields.simps, subst (2) fields.simps) (simp add: Let_def)

lemma fields_nonempty: "dropWhile sep s \<noteq> [] \<Longrightarrow> fields sep s \<noteq> []"
  by (subst fields.simps) (simp add: Let_def)

lemma scan_take:
  assumes "i \<le> j" "j \<le> length s" "\<forall>k. i \<le> k \<and> k < j \<longrightarrow> \<not> sep (s ! k)"
    and "j < length s \<Longrightarrow> sep (s ! j)"
  shows "takeWhile (\<lambda>c. \<not> sep c) (drop i s) = take (j - i) (drop i s)"
proof (rule takeWhile_eq_take_P_nth)
  fix k assume "k < j - i" "k < length (drop i s)"
  with assms show "\<not> sep (drop i s ! k)" by simp
next
  assume "j - i < length (drop i s)"
  with assms have "j < length s" by simp
  with assms show "\<not> \<not> sep (drop i s ! (j - i))" by simp
qed

lemma scan_drop:
  assumes "i \<le> j" "j \<le> length s" "\<forall>k. i \<le> k \<and> k < j \<longrightarrow> \<not> sep (s ! k)"
    and "j < length s \<Longrightarrow> sep (s ! j)"
  shows "dropWhile (\<lambda>c. \<not> sep c) (drop i s) = drop j s"
proof -
  have "dropWhile (\<lambda>c. \<not> sep c) (drop i s)
      = drop (length (takeWhile (\<lambda>c. \<not> sep c) (drop i s))) (drop i s)"
    by (rule dropWhile_eq_drop)
  also have "\<dots> = drop (length (take (j - i) (drop i s))) (drop i s)"
    using scan_take [OF assms] by simp
  also from assms have "\<dots> = drop j s" by (simp add: min_def)
  finally show ?thesis .
qed

lemma skipSeparators_drop:
  "j \<le> length s \<Longrightarrow> drop (skipSeparators pf s j) s = dropWhile (IsPathSeparator pf) (drop j s)"
proof (induction pf s j rule: skipSeparators.induct)
  case (1 pf s j)
  show ?case
  proof (cases "j < length s \<and> IsPathSeparator pf (s ! j)")
    case True
    then have eq: "skipSeparators pf s j = skipSeparators pf s (j + 1)"
      by (subst skipSeparators.simps) simp
    from True have "drop j s = s ! j # drop (j + 1) s"
      by (simp add: Cons_nth_drop_Suc)
    with True 1 eq show ?thesis by simp
  next
    case False
    then have eq: "skipSeparators pf s j = j"
      by (subst skipSeparators.simps) auto
    show ?thesis
    proof (cases "j < length s")
      case True
      with False have "\<not> IsPathSeparator pf (s ! j)" by simp
      moreover from True have "drop j s = s ! j # drop (j + 1) s"
        by (simp add: Cons_nth_drop_Suc)
      ultimately show ?thesis using eq by simp
    next
      case False
      with eq show ?thesis by simp
    qed
  qed
qed

lemma skipSeparators_le: "j \<le> length s \<Longrightarrow> skipSeparators pf s j \<le> length s"
proof (induction pf s j rule: skipSeparators.induct)
  case (1 pf s j)
  show ?case
  proof (cases "j < length s \<and> IsPathSeparator pf (s ! j)")
    case True
    then have "skipSeparators pf s j = skipSeparators pf s (j + 1)"
      by (subst skipSeparators.simps) simp
    with True 1 show ?thesis by simp
  next
    case False
    then have "skipSeparators pf s j = j"
      by (subst skipSeparators.simps) auto
    with 1 show ?thesis by simp
  qed
qed

lemma trailing_drop:
  assumes "0 < j" "j \<le> length s" "\<not> sep (s ! (j - 1))" "dropWhile sep (drop j s) = []"
  shows "trailingSeparators sep s = drop j s"
proof -
  from assms(4) have all: "\<forall>c \<in> set (drop j s). sep c"
    by (simp add: dropWhile_eq_Nil_conv)
  have s: "rev s = rev (drop j s) @ rev (take j s)"
    by (metis append_take_drop_id rev_append)
  from assms have ne: "take j s \<noteq> []" by auto
  from assms have len: "length (take j s) = j" by simp
  from ne have "last (take j s) = take j s ! (length (take j s) - 1)"
    by (rule last_conv_nth)
  also from assms have "\<dots> = s ! (j - 1)" unfolding len by simp
  finally have "last (take j s) = s ! (j - 1)" .
  with ne assms have "\<not> sep (hd (rev (take j s)))" by (simp add: hd_rev)
  with ne have "takeWhile sep (rev (take j s)) = []"
    by (cases "rev (take j s)") auto
  moreover from all have "takeWhile sep (rev (drop j s) @ rev (take j s))
      = rev (drop j s) @ takeWhile sep (rev (take j s))"
    by (intro takeWhile_append2) simp
  ultimately have "takeWhile sep (rev s) = rev (drop j s)"
    using s by simp
  then show ?thesis by (simp add: trailingSeparators_def)
qed


lemma dropDots_Cons:
  "cs \<noteq> [] \<Longrightarrow> dropDots (c # cs) = (if c = ''.'' then [] else [c]) @ dropDots cs"
  by (simp add: dropDots_def)

lemma splitLoop_fields:
  assumes "i < length s" "\<not> IsPathSeparator pf (s ! i)" "i \<le> j" "j \<le> length s"
    and "\<forall>k. i \<le> k \<and> k < j \<longrightarrow> \<not> IsPathSeparator pf (s ! k)"
  shows "splitLoop pf s parts i j =
           Some (parts @ dropDots (fields (IsPathSeparator pf) (drop i s)),
                 trailingSeparators (IsPathSeparator pf) s)"
  using assms
proof (induction pf s parts i j rule: splitLoop.induct)
  case (1 pf s parts i j)
  let ?sep = "IsPathSeparator pf"
  let ?res = "Some (parts @ dropDots (fields ?sep (drop i s)), trailingSeparators ?sep s)"
  show ?case
  proof (cases "j < length s \<and> \<not> ?sep (s ! j)")
    case True
    from "1.prems" True have inv: "\<forall>k. i \<le> k \<and> k < j + 1 \<longrightarrow> \<not> ?sep (s ! k)"
      by (auto simp: less_Suc_eq)
    from True have "splitLoop pf s parts i j = splitLoop pf s parts i (j + 1)"
      by (subst splitLoop.simps) simp
    also have "\<dots> = ?res"
      using "1.IH"(1) [OF True "1.prems"(1) "1.prems"(2) _ _ inv] "1.prems" True by simp
    finally show ?thesis .
  next
    case False
    then have stop: "j < length s \<Longrightarrow> ?sep (s ! j)" by blast
    have ij: "i < j"
    proof (rule ccontr)
      assume "\<not> i < j"
      with "1.prems" have "j = i" by simp
      with "1.prems" False show False by simp
    qed
    let ?comp = "take (j - i) (drop i s)"
    have tw: "takeWhile (\<lambda>c. \<not> ?sep c) (drop i s) = ?comp"
      using "1.prems" stop by (intro scan_take) auto
    have dw: "dropWhile (\<lambda>c. \<not> ?sep c) (drop i s) = drop j s"
      using "1.prems" stop by (intro scan_drop) auto
    from "1.prems" have "drop i s \<noteq> []" "hd (drop i s) = s ! i"
      by (simp_all add: hd_drop_conv_nth)
    with "1.prems" have fs: "fields ?sep (drop i s) = ?comp # fields ?sep (drop j s)"
      using fields_start [of "drop i s" ?sep] tw dw by simp
    let ?j1 = "skipSeparators pf s j"
    from "1.prems" have d1: "drop ?j1 s = dropWhile ?sep (drop j s)"
      by (simp add: skipSeparators_drop)
    from "1.prems" have j1le: "?j1 \<le> length s" by (simp add: skipSeparators_le)
    have nopanic: "\<not> (length s < j \<or> j < i)" using "1.prems" by simp
    show ?thesis
    proof (cases "?j1 = length s")
      case True
      with d1 have e: "dropWhile ?sep (drop j s) = []" by simp
      then have "fields ?sep (drop j s) = []" by (rule fields_only_seps)
      with fs have dd: "dropDots (fields ?sep (drop i s)) = [?comp]"
        by (simp add: dropDots_def)
      from ij "1.prems" have "\<not> ?sep (s ! (j - 1))" by simp
      with ij "1.prems" e have tr: "trailingSeparators ?sep s = drop j s"
        by (intro trailing_drop) auto
      from False nopanic True have "splitLoop pf s parts i j = Some (parts @ [?comp], drop j s)"
        by (subst splitLoop.simps) (auto simp: Let_def)
      with dd tr show ?thesis by simp
    next
      case F2: False
      with j1le have j1lt: "?j1 < length s" by simp
      then have ns: "\<not> ?sep (s ! ?j1)" by (rule skipSeparators_stop)
      have "fields ?sep (drop j s) = fields ?sep (drop ?j1 s)"
        unfolding d1 by (simp add: fields_skip)
      moreover from j1lt ns have ne: "fields ?sep (drop ?j1 s) \<noteq> []"
        using fields_start [of "drop ?j1 s" ?sep] by (simp add: hd_drop_conv_nth)
      ultimately have dd: "dropDots (fields ?sep (drop i s))
          = (if ?comp = ''.'' then [] else [?comp]) @ dropDots (fields ?sep (drop ?j1 s))"
        using fs by (simp add: dropDots_Cons)
      let ?parts1 = "parts @ [?comp]"
      let ?parts2 = "if last ?parts1 = ''.'' then butlast ?parts1 else ?parts1"
      have p2: "?parts2 = parts @ (if ?comp = ''.'' then [] else [?comp])" by simp
      have IH: "splitLoop pf s ?parts2 ?j1 ?j1 =
          Some (?parts2 @ dropDots (fields ?sep (drop ?j1 s)), trailingSeparators ?sep s)"
      proof (rule "1.IH"(2) [OF False nopanic refl refl refl F2 refl j1lt ns])
        show "?j1 \<le> ?j1" by simp
        show "?j1 \<le> length s" by (rule j1le)
        show "\<forall>k. ?j1 \<le> k \<and> k < ?j1 \<longrightarrow> \<not> ?sep (s ! k)" by auto
      qed
      from False nopanic F2 have "splitLoop pf s parts i j = splitLoop pf s ?parts2 ?j1 ?j1"
        by (subst splitLoop.simps) (auto simp: Let_def)
      with IH dd show ?thesis by (simp only: p2 append_assoc)
    qed
  qed
qed

text \<open>
  Claim C6. On a platform that does not clean paths, for every path that is not empty and
  does not start with a separator, and every prefix and suffix, splitPathInRoot returns
  without error the sequence that the specification describes: the prefix, then the
  path's components with every \<open>.\<close> dropped except a final one, the final \<open>.\<close> dropped
  too when the suffix is not empty, then the suffix; and the separators that follow the
  final component are returned as they are. So \<open>a/./b/c\<close> and \<open>a/b/c\<close> split into the
  same sequence.
\<close>

theorem splitPathInRoot_components:
  assumes "\<not> windows pf" "s \<noteq> []" "\<not> IsPathSeparator pf (hd s)"
  shows "splitPathInRoot pf s prefix suffix =
           Some (splitSpec (IsPathSeparator pf) s prefix suffix,
                 trailingSeparators (IsPathSeparator pf) s, None)"
proof -
  let ?sep = "IsPathSeparator pf"
  let ?cs = "fields ?sep s"
  from assms have s0: "\<not> ?sep (s ! 0)" by (simp add: hd_conv_nth)
  from assms have len: "0 < length s" "1 \<le> length s" by (simp_all add: Suc_le_eq)
  from s0 have inv: "\<forall>k. 0 \<le> k \<and> k < 1 \<longrightarrow> \<not> ?sep (s ! k)" by simp
  have loop: "splitLoop pf s prefix 0 (Suc 0) = Some (prefix @ dropDots ?cs, trailingSeparators ?sep s)"
    using splitLoop_fields [OF len(1) s0 _ len(2) inv, of prefix] by simp
  let ?parts = "prefix @ dropDots ?cs"
  have l: "last ?parts = last ?cs" by (simp add: dropDots_def)
  have b: "butlast ?parts = prefix @ filter (\<lambda>c. c \<noteq> ''.'') (butlast ?cs)"
    by (simp add: dropDots_def butlast_append)
  have ne: "length ?parts > 0" by (simp add: dropDots_def)
  have fin: "(if length suffix > 0 \<and> length ?parts > 0 \<and> last ?parts = ''.''
              then butlast ?parts else ?parts) @ suffix
           = splitSpec ?sep s prefix suffix"
    unfolding l b by (auto simp: splitSpec_def Let_def dropDots_def)
  from assms s0 have "splitPathInRoot pf s prefix suffix =
      Some ((if length suffix > 0 \<and> length ?parts > 0 \<and> last ?parts = ''.''
             then butlast ?parts else ?parts) @ suffix, trailingSeparators ?sep s, None)"
    unfolding splitPathInRoot_def by (simp add: loop Let_def del: append_assoc)
  with fin show ?thesis by simp
qed

theorem splitPathInRoot_components_witness:
  "\<not> windows unix \<and> ''a/./b/c'' \<noteq> [] \<and> \<not> IsPathSeparator unix (hd ''a/./b/c'')
   \<and> splitPathInRoot unix ''a/./b/c'' [] [] = Some ([''a'', ''b'', ''c''], [], None)
   \<and> splitPathInRoot unix ''a/b/c'' [] [] = Some ([''a'', ''b'', ''c''], [], None)
   \<and> splitPathInRoot unix ''a/./b/.//'' [''p''] [] = Some ([''p'', ''a'', ''b'', ''.''], ''//'', None)
   \<and> splitPathInRoot unix ''a/./b/.//'' [''p''] [''q''] = Some ([''p'', ''a'', ''b'', ''q''], ''//'', None)"
proof -
  have h: "\<not> windows unix" "\<And>c. IsPathSeparator unix c = (c = CHR ''/'')"
    by (simp_all add: unix_def)
  from splitPathInRoot_components [of unix "''a/./b/c''" "[]" "[]"]
       splitPathInRoot_components [of unix "''a/b/c''" "[]" "[]"]
       splitPathInRoot_components [of unix "''a/./b/.//''" "[''p'']" "[]"]
       splitPathInRoot_components [of unix "''a/./b/.//''" "[''p'']" "[''q'']"]
  show ?thesis
    by (simp add: h splitSpec_def trailingSeparators_def fields.simps)
qed

subsection \<open>Cycles of symbolic links\<close>

lemma walk_add:
  "walk pf t op (a + b) st =
     (case walk pf t op a st of None \<Rightarrow> None | Some st1 \<Rightarrow> walk pf t op b st1)"
  by (induction a arbitrary: st) (auto split: step.splits)

lemma walk_prefix: "walk pf t op (a + b) st \<noteq> None \<Longrightarrow> walk pf t op a st \<noteq> None"
  by (auto simp: walk_add split: option.splits)

lemma walk_cycle_iter:
  assumes "walk pf t op m st = Some st"
  shows "walk pf t op (j * m) st = Some st"
proof (induction j)
  case 0
  show ?case by simp
next
  case (Suc j)
  have "walk pf t op (Suc j * m) st = walk pf t op (m + j * m) st" by simp
  also have "\<dots> = walk pf t op (j * m) st" using assms by (simp only: walk_add option.case)
  finally show ?case using Suc by simp
qed

text \<open>A walk that comes back to a state it has been in goes on without end.\<close>

lemma cyclicAt_never_stops:
  assumes "cyclicAt pf t op st k m"
  shows "walk pf t op n st \<noteq> None"
proof -
  from assms obtain st1 where m: "0 < m" and k: "walk pf t op k st = Some st1"
    and c: "walk pf t op m st1 = Some st1"
    by (auto simp: cyclicAt_def split: option.splits)
  have "walk pf t op (k + n * m) st = Some st1"
    using k walk_cycle_iter [OF c, of n] by (simp add: walk_add)
  moreover from m have "n \<le> k + n * m" by (cases m) auto
  then obtain d where "k + n * m = n + d" by (auto simp: le_iff_add)
  ultimately have "walk pf t op (n + d) st \<noteq> None" by simp
  then show ?thesis by (rule walk_prefix)
qed

text \<open>
  So does the walk through a link to a name beneath itself, whose queue grows at every
  turn and which is never in the same state twice.
\<close>

lemma growing_link_step:
  "\<not> onLinkItself op \<Longrightarrow>
   resolveStep unix loopTree op \<lparr> cur = 0, queue = ''g'' # q, mustDir = d \<rparr>
     = Follow \<lparr> cur = 0, queue = ''g'' # ''b'' # q, mustDir = d \<rparr>"
  by (simp add: resolveStep_def loopTree_def splitPathInRoot_def unix_def
      splitLoop.simps skipSeparators.simps)

lemma growing_link_never_stops:
  "\<not> onLinkItself op \<Longrightarrow>
   walk unix loopTree op n \<lparr> cur = 0, queue = ''g'' # q, mustDir = d \<rparr> \<noteq> None"
  by (induction n arbitrary: q) (simp_all add: growing_link_step)

lemma growing_link_states_differ:
  "\<not> onLinkItself op \<Longrightarrow>
   walk unix loopTree op n \<lparr> cur = 0, queue = ''g'' # q, mustDir = d \<rparr>
     = Some \<lparr> cur = 0, queue = ''g'' # replicate n ''b'' @ q, mustDir = d \<rparr>"
proof (induction n arbitrary: q)
  case 0
  show ?case by simp
next
  case (Suc n)
  from Suc.prems Suc.IH [OF Suc.prems, of "''b'' # q"] show ?case
    by (simp add: growing_link_step replicate_app_Cons_same)
qed

text \<open>
  The resolution of a walk without end fails with ELOOP, having followed rootMaxSymlinks
  links.
\<close>

lemma resolveFrom_never_stops:
  assumes "\<forall>n. walk pf t op n st \<noteq> None" "c \<le> rootMaxSymlinks"
  shows "resolveFrom pf t op st c = (Some (Inl ELOOP), rootMaxSymlinks)"
  using assms
proof (induction pf t op st c rule: resolveFrom.induct)
  case (1 pf t op st symlinks)
  from "1.prems"(1) have w1: "walk pf t op (Suc 0) st \<noteq> None" by blast
  show ?case
  proof (cases "resolveStep pf t op st")
    case Panic
    with w1 show ?thesis by simp
  next
    case (Done r)
    with w1 show ?thesis by simp
  next
    case (Walk st1)
    have "\<forall>n. walk pf t op n st1 \<noteq> None"
    proof
      fix n
      from "1.prems"(1) have "walk pf t op (Suc n) st \<noteq> None" by blast
      with Walk show "walk pf t op n st1 \<noteq> None" by simp
    qed
    with "1.IH"(1) [OF Walk] "1.prems"(2)
    have "resolveFrom pf t op st1 symlinks = (Some (Inl ELOOP), rootMaxSymlinks)" by simp
    with Walk show ?thesis by (subst resolveFrom.simps) simp
  next
    case (Follow st1)
    have nx: "\<forall>n. walk pf t op n st1 \<noteq> None"
    proof
      fix n
      from "1.prems"(1) have "walk pf t op (Suc n) st \<noteq> None" by blast
      with Follow show "walk pf t op n st1 \<noteq> None" by simp
    qed
    show ?thesis
    proof (cases "symlinks + 1 > rootMaxSymlinks")
      case True
      with "1.prems"(2) have "symlinks = rootMaxSymlinks" by simp
      with Follow True show ?thesis by (subst resolveFrom.simps) simp
    next
      case False
      with "1.IH"(2) [OF Follow False] nx
      have "resolveFrom pf t op st1 (symlinks + 1) = (Some (Inl ELOOP), rootMaxSymlinks)" by simp
      with Follow False show ?thesis by (subst resolveFrom.simps) simp
    qed
  qed
qed

text \<open>No resolution follows more than rootMaxSymlinks links.\<close>

lemma resolveFrom_follows_bounded:
  "c \<le> rootMaxSymlinks \<Longrightarrow> snd (resolveFrom pf t op st c) \<le> rootMaxSymlinks"
proof (induction pf t op st c rule: resolveFrom.induct)
  case (1 pf t op st symlinks)
  show ?case
  proof (cases "resolveStep pf t op st")
    case Panic
    with "1.prems" show ?thesis by (subst resolveFrom.simps) simp
  next
    case (Done r)
    with "1.prems" show ?thesis by (subst resolveFrom.simps) simp
  next
    case (Walk st1)
    with "1.IH"(1) [OF Walk] "1.prems" show ?thesis by (subst resolveFrom.simps) simp
  next
    case (Follow st1)
    show ?thesis
    proof (cases "symlinks + 1 > rootMaxSymlinks")
      case True
      with Follow "1.prems" show ?thesis by (subst resolveFrom.simps) simp
    next
      case False
      with "1.IH"(2) [OF Follow False] Follow show ?thesis
        by (subst resolveFrom.simps) simp
    qed
  qed
qed

text \<open>
  The number that the resolution returns counts links of the walk: it is the number of
  links that the walk follows in some number of steps.
\<close>

lemma resolveFrom_counts_follows:
  "\<exists>n. snd (resolveFrom pf t op st c) = c + followsIn pf t op n st"
proof (induction pf t op st c rule: resolveFrom.induct)
  case (1 pf t op st symlinks)
  show ?case
  proof (cases "resolveStep pf t op st")
    case Panic
    then have "snd (resolveFrom pf t op st symlinks) = symlinks + followsIn pf t op 0 st"
      by (subst resolveFrom.simps) simp
    then show ?thesis by blast
  next
    case (Done r)
    then have "snd (resolveFrom pf t op st symlinks) = symlinks + followsIn pf t op 0 st"
      by (subst resolveFrom.simps) simp
    then show ?thesis by blast
  next
    case (Walk st1)
    from "1.IH"(1) [OF Walk] obtain n
      where "snd (resolveFrom pf t op st1 symlinks) = symlinks + followsIn pf t op n st1" by blast
    with Walk have "snd (resolveFrom pf t op st symlinks) = symlinks + followsIn pf t op (Suc n) st"
      by (subst resolveFrom.simps) simp
    then show ?thesis by blast
  next
    case (Follow st1)
    show ?thesis
    proof (cases "symlinks + 1 > rootMaxSymlinks")
      case True
      with Follow have "snd (resolveFrom pf t op st symlinks) = symlinks + followsIn pf t op 0 st"
        by (subst resolveFrom.simps) simp
      then show ?thesis by blast
    next
      case False
      from "1.IH"(2) [OF Follow False] obtain n
        where "snd (resolveFrom pf t op st1 (symlinks + 1))
                 = symlinks + 1 + followsIn pf t op n st1" by blast
      with Follow False
      have "snd (resolveFrom pf t op st symlinks) = symlinks + followsIn pf t op (Suc n) st"
        by (subst resolveFrom.simps) simp
      then show ?thesis by blast
    qed
  qed
qed

text \<open>
  A walk that follows more than rootMaxSymlinks links, with or without end, is cut with
  ELOOP.
\<close>

lemma resolveFrom_ninth_follow:
  "rootMaxSymlinks < c + followsIn pf t op n st \<Longrightarrow> c \<le> rootMaxSymlinks \<Longrightarrow>
   resolveFrom pf t op st c = (Some (Inl ELOOP), rootMaxSymlinks)"
proof (induction n arbitrary: st c)
  case 0
  then show ?case by simp
next
  case (Suc n)
  show ?case
  proof (cases "resolveStep pf t op st")
    case Panic
    with Suc.prems show ?thesis by simp
  next
    case (Done r)
    with Suc.prems show ?thesis by simp
  next
    case (Walk st1)
    with Suc.prems have "rootMaxSymlinks < c + followsIn pf t op n st1" by simp
    from Suc.IH [OF this Suc.prems(2)] Walk show ?thesis
      by (subst resolveFrom.simps) simp
  next
    case (Follow st1)
    show ?thesis
    proof (cases "c + 1 > rootMaxSymlinks")
      case True
      with Suc.prems(2) have "c = rootMaxSymlinks" by simp
      with Follow True show ?thesis by (subst resolveFrom.simps) simp
    next
      case False
      then have le: "c + 1 \<le> rootMaxSymlinks" by simp
      from Suc.prems(1) Follow have "rootMaxSymlinks < (c + 1) + followsIn pf t op n st1" by simp
      from Suc.IH [OF this le] Follow False show ?thesis
        by (subst resolveFrom.simps) simp
    qed
  qed
qed

text \<open>
  Claim C4 as stated fails on a cyclic link that the resolution does not follow. The link
  \<open>loop\<close> points to itself; Lstat, which works on the link itself, resolves the name
  \<open>loop\<close> to that link without following it and without error. The link \<open>abs\<close> has the
  absolute target \<open>/abs\<close>; opening it fails with the escape error, not with ELOOP.
\<close>

theorem cyclic_link_not_followed:
  "loopTree 0 ''loop'' = Some (SymlinkTo ''loop'')
   \<and> resolveInRoot unix loopTree OpLstat 0 ''loop'' = (Some (Inr (SymlinkTo ''loop'')), 0)
   \<and> loopTree 0 ''abs'' = Some (SymlinkTo ''/abs'')
   \<and> resolveInRoot unix loopTree OpOpen 0 ''abs'' = (Some (Inl errPathEscapes), 0)"
  by (simp add: resolveInRoot_def resolveFrom.simps resolveStep_def loopTree_def
      onLinkItself_def splitPathInRoot_def unix_def splitLoop.simps skipSeparators.simps)

text \<open>
  Claim C4, amended. Every resolution beneath the root returns, having followed at most
  rootMaxSymlinks links, that is 8. For every tree, operation, root directory and name that
  splits without error, when the resolution would keep following symbolic links without
  end were there no limit (as on a cycle of links that the operation follows, whether the
  walk comes back to a state it has been in or grows its queue at every turn), it fails
  with the too-many-symlink-levels error after exactly 8 follows.
\<close>

theorem resolution_bounded_cycle_fails:
  "snd (resolveInRoot pf t op root name) \<le> rootMaxSymlinks \<and> rootMaxSymlinks = 8
   \<and> (splitPathInRoot pf name [] [] = Some (parts, sep, None) \<longrightarrow>
        (\<forall>n. walk pf t op n \<lparr> cur = root, queue = parts, mustDir = (sep \<noteq> []) \<rparr> \<noteq> None) \<longrightarrow>
        resolveInRoot pf t op root name = (Some (Inl ELOOP), rootMaxSymlinks))"
proof (intro conjI impI)
  show "snd (resolveInRoot pf t op root name) \<le> rootMaxSymlinks"
    by (auto simp: resolveInRoot_def resolveFrom_follows_bounded split: option.splits prod.splits)
  show "rootMaxSymlinks = 8" by (simp add: rootMaxSymlinks_def)
next
  assume sp: "splitPathInRoot pf name [] [] = Some (parts, sep, None)"
    and nv: "\<forall>n. walk pf t op n \<lparr> cur = root, queue = parts, mustDir = (sep \<noteq> []) \<rparr> \<noteq> None"
  from nv have "resolveFrom pf t op \<lparr> cur = root, queue = parts, mustDir = (sep \<noteq> []) \<rparr> 0
      = (Some (Inl ELOOP), rootMaxSymlinks)"
    by (rule resolveFrom_never_stops) simp
  with sp show "resolveInRoot pf t op root name = (Some (Inl ELOOP), rootMaxSymlinks)"
    by (simp add: resolveInRoot_def)
qed

theorem resolution_bounded_cycle_fails_witness:
  "splitPathInRoot unix ''a/z'' [] [] = Some ([''a'', ''z''], [], None)
   \<and> (\<forall>n. walk unix loopTree OpOpen n
            \<lparr> cur = 0, queue = [''a'', ''z''], mustDir = ([] \<noteq> ([] :: string)) \<rparr> \<noteq> None)
   \<and> resolveInRoot unix loopTree OpOpen 0 ''a/z'' = (Some (Inl ELOOP), 8)
   \<and> splitPathInRoot unix ''g'' [] [] = Some ([''g''], [], None)
   \<and> (\<forall>n. walk unix loopTree OpOpen n
            \<lparr> cur = 0, queue = [''g''], mustDir = ([] \<noteq> ([] :: string)) \<rparr> \<noteq> None)
   \<and> resolveInRoot unix loopTree OpOpen 0 ''g'' = (Some (Inl ELOOP), 8)"
proof -
  have a1: "splitPathInRoot unix ''a/z'' [] [] = Some ([''a'', ''z''], [], None)"
    by (simp add: splitPathInRoot_def unix_def splitLoop.simps skipSeparators.simps)
  have "cyclicAt unix loopTree OpOpen
          \<lparr> cur = 0, queue = [''a'', ''z''], mustDir = ([] \<noteq> ([] :: string)) \<rparr> 2 2"
    by (simp add: cyclicAt_def numeral_2_eq_2 resolveStep_def loopTree_def onLinkItself_def
        splitPathInRoot_def unix_def splitLoop.simps skipSeparators.simps)
  then have a2: "\<forall>n. walk unix loopTree OpOpen n
      \<lparr> cur = 0, queue = [''a'', ''z''], mustDir = ([] \<noteq> ([] :: string)) \<rparr> \<noteq> None"
    using cyclicAt_never_stops by blast
  have g1: "splitPathInRoot unix ''g'' [] [] = Some ([''g''], [], None)"
    by (simp add: splitPathInRoot_def unix_def splitLoop.simps skipSeparators.simps)
  have g2: "\<forall>n. walk unix loopTree OpOpen n
      \<lparr> cur = 0, queue = [''g''], mustDir = ([] \<noteq> ([] :: string)) \<rparr> \<noteq> None"
    by (simp add: growing_link_never_stops onLinkItself_def)
  from resolution_bounded_cycle_fails [of unix loopTree OpOpen 0 "''a/z''" "[''a'', ''z'']" "[]"]
       a1 a2
  have "resolveInRoot unix loopTree OpOpen 0 ''a/z'' = (Some (Inl ELOOP), rootMaxSymlinks)"
    by blast
  then have a3: "resolveInRoot unix loopTree OpOpen 0 ''a/z'' = (Some (Inl ELOOP), 8)"
    by (simp only: rootMaxSymlinks_def)
  from resolution_bounded_cycle_fails [of unix loopTree OpOpen 0 "''g''" "[''g'']" "[]"]
       g1 g2
  have "resolveInRoot unix loopTree OpOpen 0 ''g'' = (Some (Inl ELOOP), rootMaxSymlinks)"
    by blast
  then have g3: "resolveInRoot unix loopTree OpOpen 0 ''g'' = (Some (Inl ELOOP), 8)"
    by (simp only: rootMaxSymlinks_def)
  show ?thesis by (intro conjI a1 a2 a3 g1 g2 g3)
qed

subsection \<open>The order of rootFS.ReadDir\<close>

lemma CompareString_total: "\<not> CompareString a b < 0 \<Longrightarrow> CompareString b a \<le> 0"
  by (induction a b rule: CompareString.induct) (auto split: if_splits)

lemma CompareString_trans:
  "CompareString a b \<le> 0 \<Longrightarrow> CompareString b c \<le> 0 \<Longrightarrow> CompareString a c \<le> 0"
proof (induction a b arbitrary: c rule: CompareString.induct)
  case 1
  then show ?case by simp
next
  case (2 y ys)
  then show ?case by (cases c) simp_all
next
  case (3 x xs)
  then show ?case by simp
next
  case (4 x xs y ys)
  show ?case
  proof (cases c)
    case Nil
    with 4 show ?thesis by simp
  next
    case (Cons z zs)
    show ?thesis
    proof (cases "(of_char x :: nat) < of_char y")
      case True
      from "4.prems"(2) Cons have "(of_char y :: nat) \<le> of_char z"
        by (simp split: if_splits)
      with True have "(of_char x :: nat) < of_char z" by simp
      with Cons show ?thesis by simp
    next
      case False
      with "4.prems"(1) have xy: "(of_char x :: nat) = of_char y" and r1: "CompareString xs ys \<le> 0"
        by (simp_all split: if_splits)
      show ?thesis
      proof (cases "(of_char y :: nat) < of_char z")
        case True
        with xy have "(of_char x :: nat) < of_char z" by simp
        with Cons show ?thesis by simp
      next
        case F2: False
        with "4.prems"(2) Cons have yz: "(of_char y :: nat) = of_char z" and r2: "CompareString ys zs \<le> 0"
          by (simp_all split: if_splits)
        from xy have nyx: "\<not> (of_char y :: nat) < of_char x" by simp
        from "4.IH" [OF False nyx r1 r2] have "CompareString xs zs \<le> 0" .
        moreover from xy yz have "\<not> (of_char x :: nat) < of_char z" "\<not> (of_char z :: nat) < of_char x"
          by simp_all
        ultimately show ?thesis using Cons by simp
      qed
    qed
  qed
qed

lemma set_insertBack: "set (insertBack cmp x ys) = insert x (set ys)"
  by (induction ys) auto

lemma mset_insertBack: "mset (insertBack cmp x ys) = add_mset x (mset ys)"
  by (induction ys) auto

lemma sorted_insertBack:
  fixes cmp :: "'a \<Rightarrow> 'a \<Rightarrow> int"
  assumes tot: "\<And>a b. \<not> cmp a b < 0 \<Longrightarrow> cmp b a \<le> 0"
    and tr: "\<And>a b c. cmp a b \<le> 0 \<Longrightarrow> cmp b c \<le> 0 \<Longrightarrow> cmp a c \<le> 0"
  shows "sorted_wrt (\<lambda>a b. cmp b a \<le> 0) ys \<Longrightarrow> sorted_wrt (\<lambda>a b. cmp b a \<le> 0) (insertBack cmp x ys)"
proof (induction ys)
  case Nil
  show ?case by simp
next
  case (Cons y ys)
  show ?case
  proof (cases "cmp x y < 0")
    case True
    with Cons show ?thesis by (auto simp: set_insertBack)
  next
    case False
    then have yx: "cmp y x \<le> 0" by (rule tot)
    have "\<forall>z \<in> set ys. cmp z x \<le> 0"
    proof
      fix z assume "z \<in> set ys"
      with Cons.prems have "cmp z y \<le> 0" by simp
      then show "cmp z x \<le> 0" using yx by (rule tr)
    qed
    with False yx Cons.prems show ?thesis by simp
  qed
qed

lemma sorted_foldl_insertBack:
  fixes cmp :: "'a \<Rightarrow> 'a \<Rightarrow> int"
  assumes tot: "\<And>a b. \<not> cmp a b < 0 \<Longrightarrow> cmp b a \<le> 0"
    and tr: "\<And>a b c. cmp a b \<le> 0 \<Longrightarrow> cmp b c \<le> 0 \<Longrightarrow> cmp a c \<le> 0"
  shows "sorted_wrt (\<lambda>a b. cmp b a \<le> 0) acc \<Longrightarrow>
         sorted_wrt (\<lambda>a b. cmp b a \<le> 0) (foldl (\<lambda>done x. insertBack cmp x done) acc xs)"
proof (induction xs arbitrary: acc)
  case Nil
  then show ?case by simp
next
  case (Cons x xs)
  from Cons.prems have "sorted_wrt (\<lambda>a b. cmp b a \<le> 0) (insertBack cmp x acc)"
    using tot tr by (intro sorted_insertBack [where cmp = cmp]) auto
  then show ?case using Cons.IH by simp
qed

lemma mset_foldl_insertBack:
  "mset (foldl (\<lambda>done x. insertBack cmp x done) acc xs) = mset acc + mset xs"
  by (induction xs arbitrary: acc) (auto simp: mset_insertBack)

lemma sorted_SortFunc:
  assumes tot: "\<And>a b. \<not> cmp a b < 0 \<Longrightarrow> cmp b a \<le> 0"
    and tr: "\<And>a b c. cmp a b \<le> 0 \<Longrightarrow> cmp b c \<le> 0 \<Longrightarrow> cmp a c \<le> 0"
  shows "sorted_wrt (\<lambda>a b. cmp a b \<le> 0) (SortFunc data cmp)"
proof -
  have "sorted_wrt (\<lambda>a b. cmp b a \<le> 0) (foldl (\<lambda>done x. insertBack cmp x done) [] data)"
    using tot tr by (intro sorted_foldl_insertBack [where cmp = cmp]) auto
  then show ?thesis by (simp add: SortFunc_def sorted_wrt_rev)
qed

lemma mset_SortFunc: "mset (SortFunc data cmp) = mset data"
  by (simp add: SortFunc_def mset_foldl_insertBack)

lemma sorted_SortFunc_byName:
  "sorted_wrt (\<lambda>a b. CompareString (Name a) (Name b) \<le> 0)
     (SortFunc (dirs :: DirEntry list) (\<lambda>a b. CompareString (Name a) (Name b)))"
proof (rule sorted_SortFunc [where cmp = "\<lambda>a b. CompareString (Name a) (Name b)"])
  fix a b :: DirEntry
  assume "\<not> CompareString (Name a) (Name b) < 0"
  then show "CompareString (Name b) (Name a) \<le> 0" by (rule CompareString_total)
next
  fix a b c :: DirEntry
  assume "CompareString (Name a) (Name b) \<le> 0" "CompareString (Name b) (Name c) \<le> 0"
  then show "CompareString (Name a) (Name c) \<le> 0" by (rule CompareString_trans)
qed

text \<open>
  Claim C9. For every directory name, the entries that ReadDir of the root's FS wrapper
  returns are in ascending byte-wise order of their names. When the name is valid and the
  directory opens, they are the entries that the directory read has collected, each as
  often as it was read, sorted after the read, and the read's error is returned with them.
\<close>

theorem rootFS_ReadDir_sorted:
  "sorted_wrt (\<lambda>a b. CompareString (Name a) (Name b) \<le> 0) (fst (fst (rootFS_ReadDir pf r name s)))
   \<and> (isValidRootFSPath pf name \<longrightarrow> Root_Open r name s = (Inr f, s1) \<longrightarrow>
        fileReadDir r f (- 1) s1 = ((dirs, err), s2) \<longrightarrow>
        mset (fst (fst (rootFS_ReadDir pf r name s))) = mset dirs
        \<and> snd (fst (rootFS_ReadDir pf r name s)) = err)"
proof (intro conjI impI)
  show "sorted_wrt (\<lambda>a b. CompareString (Name a) (Name b) \<le> 0)
          (fst (fst (rootFS_ReadDir pf r name s)))"
    by (auto simp: rootFS_ReadDir_def Let_def sorted_SortFunc_byName split: prod.splits sum.splits)
next
  assume "isValidRootFSPath pf name" "Root_Open r name s = (Inr f, s1)"
    "fileReadDir r f (- 1) s1 = ((dirs, err), s2)"
  then show "mset (fst (fst (rootFS_ReadDir pf r name s))) = mset dirs"
    and "snd (fst (rootFS_ReadDir pf r name s)) = err"
    by (simp_all add: rootFS_ReadDir_def Let_def mset_SortFunc)
qed

theorem rootFS_ReadDir_sorted_witness:
  "isValidRootFSPath unix ''d''
   \<and> Root_Open demoRoot ''d'' [] = (Inr \<lparr> fd = 3, appendMode = False \<rparr>, [Call ''openat'' [''d'']])
   \<and> fileReadDir demoRoot \<lparr> fd = 3, appendMode = False \<rparr> (- 1) [Call ''openat'' [''d'']]
       = (([\<lparr> Name = ''b'', IsDir = False \<rparr>, \<lparr> Name = ''a'', IsDir = True \<rparr>,
            \<lparr> Name = ''c'', IsDir = False \<rparr>], None),
          [Call ''openat'' [''d''], Call ''readdir'' []])
   \<and> mset (fst (fst (rootFS_ReadDir unix demoRoot ''d'' [])))
       = mset [\<lparr> Name = ''b'', IsDir = False \<rparr>, \<lparr> Name = ''a'', IsDir = True \<rparr>,
               \<lparr> Name = ''c'', IsDir = False \<rparr>]
   \<and> sorted_wrt (\<lambda>a b. CompareString (Name a) (Name b) \<le> 0)
        (fst (fst (rootFS_ReadDir unix demoRoot ''d'' [])))
   \<and> map Name (fst (fst (rootFS_ReadDir unix demoRoot ''d'' []))) = [''a'', ''b'', ''c'']"
proof -
  have v: "isValidRootFSPath unix ''d''"
    by (simp add: isValidRootFSPath_def ValidPath_def unix_def)
  have o: "Root_Open demoRoot ''d'' [] = (Inr \<lparr> fd = 3, appendMode = False \<rparr>, [Call ''openat'' [''d'']])"
    by (simp add: Root_Open_def Root_OpenFile_def demoRoot_def)
  have d: "fileReadDir demoRoot \<lparr> fd = 3, appendMode = False \<rparr> (- 1) [Call ''openat'' [''d'']]
       = (([\<lparr> Name = ''b'', IsDir = False \<rparr>, \<lparr> Name = ''a'', IsDir = True \<rparr>,
            \<lparr> Name = ''c'', IsDir = False \<rparr>], None),
          [Call ''openat'' [''d''], Call ''readdir'' []])"
    by (simp add: demoRoot_def)
  have e: "map Name (fst (fst (rootFS_ReadDir unix demoRoot ''d'' []))) = [''a'', ''b'', ''c'']"
    by (simp add: rootFS_ReadDir_def v o d Let_def SortFunc_def)
  from rootFS_ReadDir_sorted [where pf = unix and r = demoRoot and name = "''d''" and s = "[]"
      and f = "\<lparr> fd = 3, appendMode = False \<rparr>" and ?s1.0 = "[Call ''openat'' [''d'']]"
      and dirs = "[\<lparr> Name = ''b'', IsDir = False \<rparr>, \<lparr> Name = ''a'', IsDir = True \<rparr>,
                   \<lparr> Name = ''c'', IsDir = False \<rparr>]"
      and err = None and ?s2.0 = "[Call ''openat'' [''d''], Call ''readdir'' []]"]
    v o d e
  show ?thesis by simp
qed

subsection \<open>The matches of subFS.Glob\<close>

lemma shorten_prefixed:
  "rest \<noteq> [] \<Longrightarrow> shorten f (dir f @ CHR ''/'' # rest) = (rest, True)"
  by (cases rest) (auto simp: shorten_def nth_append)

lemma shorten_not_prefix:
  "take (length (dir f)) m \<noteq> dir f \<Longrightarrow> shorten f m = ([], False)"
  by (auto simp: shorten_def)

lemma globLoop_all:
  "\<forall>k. i \<le> k \<and> k < length list \<longrightarrow> snd (shorten f (list ! k)) \<Longrightarrow>
   globLoop f list i = (take i list @ map (\<lambda>m. fst (shorten f m)) (drop i list), None)"
proof (induction f list i rule: globLoop.induct)
  case (1 f list i)
  show ?case
  proof (cases "i < length list")
    case False
    then show ?thesis by (subst globLoop.simps) simp
  next
    case True
    obtain name ok where sh: "shorten f (list ! i) = (name, ok)" by (cases "shorten f (list ! i)")
    from "1.prems" True sh have ok: ok by force
    let ?l = "list[i := name]"
    have pre: "\<forall>k. i + 1 \<le> k \<and> k < length ?l \<longrightarrow> snd (shorten f (?l ! k))"
      using "1.prems" by auto
    have "globLoop f list i = globLoop f ?l (i + 1)"
      using True sh ok by (subst globLoop.simps) simp
    also have "\<dots> = (take (i + 1) ?l @ map (\<lambda>m. fst (shorten f m)) (drop (i + 1) ?l), None)"
      using "1.IH" [OF True sh [symmetric] _ pre] ok by simp
    also have "take (i + 1) ?l = take i list @ [name]"
      using True by (simp add: take_Suc_conv_app_nth)
    also have "drop (i + 1) ?l = drop (i + 1) list" by simp
    finally show ?thesis using True sh
      by (simp add: Cons_nth_drop_Suc [symmetric])
  qed
qed

lemma globLoop_bad:
  "\<exists>k. i \<le> k \<and> k < length list \<and> \<not> snd (shorten f (list ! k)) \<Longrightarrow>
   globLoop f list i =
     ([], Some (ErrorsNew (''invalid result from inner fsys Glob: '' @ [] @ '' not in '' @ dir f)))"
proof (induction f list i rule: globLoop.induct)
  case (1 f list i)
  from "1.prems" obtain k where k: "i \<le> k" "k < length list" "\<not> snd (shorten f (list ! k))"
    by blast
  then have True: "i < length list" by simp
  obtain name ok where sh: "shorten f (list ! i) = (name, ok)" by (cases "shorten f (list ! i)")
  show ?case
  proof (cases ok)
    case False
    with sh have "name = []" by (auto simp: shorten_def split: if_splits)
    with True sh False show ?thesis by (subst globLoop.simps) simp
  next
    case ok: True
    with k sh have "k \<noteq> i" by auto
    with k have ex: "\<exists>k. i + 1 \<le> k \<and> k < length (list[i := name]) \<and> \<not> snd (shorten f (list[i := name] ! k))"
      by (intro exI [of _ k]) auto
    from "1.IH" [OF True sh [symmetric] _ ex] ok
    have "globLoop f (list[i := name]) (i + 1) =
      ([], Some (ErrorsNew (''invalid result from inner fsys Glob: '' @ [] @ '' not in '' @ dir f)))"
      by simp
    with True sh ok show ?thesis by (subst globLoop.simps) simp
  qed
qed

text \<open>
  What shorten accepts, and what it returns: the prefix itself, as \<open>.\<close>, and the prefix, a
  slash and a non-empty rest, as that rest.
\<close>

lemma shorten_accepts_iff:
  "snd (shorten f m) \<longleftrightarrow> m = dir f \<or> (\<exists>rest. rest \<noteq> [] \<and> m = dir f @ ''/'' @ rest)"
proof
  assume ok: "snd (shorten f m)"
  show "m = dir f \<or> (\<exists>rest. rest \<noteq> [] \<and> m = dir f @ ''/'' @ rest)"
  proof (cases "m = dir f")
    case True
    then show ?thesis by simp
  next
    case False
    with ok have len: "length (dir f) + 2 \<le> length m" and sl: "m ! length (dir f) = CHR ''/''"
      and tk: "take (length (dir f)) m = dir f"
      by (auto simp: shorten_def split: if_splits)
    from len have "length (dir f) < length m" by simp
    then have "m = take (length (dir f)) m @ m ! length (dir f) # drop (Suc (length (dir f))) m"
      by (rule id_take_nth_drop)
    with sl tk have "m = dir f @ ''/'' @ drop (Suc (length (dir f))) m" by simp
    moreover from len have "drop (Suc (length (dir f))) m \<noteq> []" by simp
    ultimately show ?thesis by blast
  qed
next
  assume "m = dir f \<or> (\<exists>rest. rest \<noteq> [] \<and> m = dir f @ ''/'' @ rest)"
  then show "snd (shorten f m)"
  proof
    assume "m = dir f"
    then show ?thesis by (simp add: shorten_def)
  next
    assume "\<exists>rest. rest \<noteq> [] \<and> m = dir f @ ''/'' @ rest"
    then obtain rest where "rest \<noteq> []" "m = dir f @ CHR ''/'' # rest" by auto
    then show ?thesis by (simp add: shorten_prefixed)
  qed
qed

lemma shorten_result:
  "snd (shorten f m) \<Longrightarrow>
   fst (shorten f m) = (if m = dir f then ''.'' else drop (length (dir f) + 1) m)"
  by (auto simp: shorten_def split: if_splits)

text \<open>
  Claim C7 as stated fails, whichever text \<open>that prefix\<close> stands for. Under the prefix
  \<open>x\<close>, the store answers one pattern with the matches \<open>x\<close> and \<open>x/1.txt\<close>: the first
  does not begin with the prefix and a slash, and nothing is stripped from it, yet Glob
  returns no error and gives it back as \<open>.\<close>. It answers another pattern with the matches
  \<open>x/1.txt\<close> and \<open>xy/2.txt\<close>: both begin with the prefix, yet Glob strips nothing and
  returns the error.
\<close>

theorem subFS_Glob_prefix_itself:
  "Glob demoStore ''x/[.]*'' [] = (([''x'', ''x/1.txt''], None), [Call ''glob'' [''x/[.]*'']])
   \<and> take (length ''x/'') ''x'' \<noteq> ''x/''
   \<and> subFS_Glob (\<lambda>p n. (False, None)) \<lparr> fsys = demoStore, dir = ''x'' \<rparr> ''[.]*'' []
       = (([''.'', ''1.txt''], None), [Call ''glob'' [''x/[.]*'']])
   \<and> Glob demoStore ''x/?*'' [] = (([''x/1.txt'', ''xy/2.txt''], None), [Call ''glob'' [''x/?*'']])
   \<and> take (length ''x'') ''x/1.txt'' = ''x'' \<and> take (length ''x'') ''xy/2.txt'' = ''x''
   \<and> subFS_Glob (\<lambda>p n. (False, None)) \<lparr> fsys = demoStore, dir = ''x'' \<rparr> ''?*'' []
       = (([], Some (ErrorsNew ''invalid result from inner fsys Glob:  not in x'')),
          [Call ''glob'' [''x/?*'']])"
  by (simp add: subFS_Glob_def demoStore_def globLoop.simps shorten_def fixErr_def)

text \<open>
  Claim C7, amended. For every well-formed pattern other than \<open>.\<close>, subFS.Glob asks the
  wrapped store for the matches of the prefixed pattern, and its result is decided by every
  match. When each match is the prefix itself or the prefix, a slash and a non-empty rest,
  Glob returns, in the same order, \<open>.\<close> for the former and the rest for the latter (the
  prefix and the slash stripped), with the store's error passed through fixErr. When any
  match is of neither form, as is every match that does not begin with the prefix, Glob
  returns the error \<open>invalid result from inner fsys Glob\<close> and no list: the match is neither
  kept nor dropped silently.
\<close>

theorem subFS_Glob_matches:
  assumes "snd (Match pattern []) = None" "pattern \<noteq> ''.''"
    and "Glob (fsys f) (dir f @ ''/'' @ pattern) s = ((list, err), s1)"
  shows "subFS_Glob Match f pattern s =
           (if \<forall>m \<in> set list. m = dir f \<or> (\<exists>rest. rest \<noteq> [] \<and> m = dir f @ ''/'' @ rest)
            then ((map (\<lambda>m. if m = dir f then ''.'' else drop (length (dir f) + 1) m) list,
                   fixErr f err), s1)
            else (([], Some (ErrorsNew (''invalid result from inner fsys Glob: ''
                                         @ '' not in '' @ dir f))), s1))"
proof (cases "\<forall>m \<in> set list. snd (shorten f m)")
  case True
  then have "\<forall>k. 0 \<le> k \<and> k < length list \<longrightarrow> snd (shorten f (list ! k))" by simp
  then have "globLoop f list 0 = (take 0 list @ map (\<lambda>m. fst (shorten f m)) (drop 0 list), None)"
    by (rule globLoop_all)
  moreover have "map (\<lambda>m. fst (shorten f m)) list
      = map (\<lambda>m. if m = dir f then ''.'' else drop (length (dir f) + 1) m) list"
    using True by (intro map_cong) (simp_all add: shorten_result)
  ultimately have "globLoop f list 0
      = (map (\<lambda>m. if m = dir f then ''.'' else drop (length (dir f) + 1) m) list, None)"
    by simp
  with assms have eq: "subFS_Glob Match f pattern s
      = ((map (\<lambda>m. if m = dir f then ''.'' else drop (length (dir f) + 1) m) list,
          fixErr f err), s1)"
    by (simp add: subFS_Glob_def)
  from True
  have cond: "\<forall>m \<in> set list. m = dir f \<or> (\<exists>rest. rest \<noteq> [] \<and> m = dir f @ ''/'' @ rest)"
    by (simp only: shorten_accepts_iff)
  show ?thesis unfolding eq by (rule if_P [symmetric]) (rule cond)
next
  case False
  then obtain m where m: "m \<in> set list" "\<not> snd (shorten f m)" by blast
  from m(1) obtain k where "k < length list" "list ! k = m"
    by (auto simp: in_set_conv_nth)
  with m(2) have "\<exists>k. 0 \<le> k \<and> k < length list \<and> \<not> snd (shorten f (list ! k))" by auto
  then have "globLoop f list 0 =
      ([], Some (ErrorsNew (''invalid result from inner fsys Glob: '' @ [] @ '' not in '' @ dir f)))"
    by (rule globLoop_bad)
  with assms have eq: "subFS_Glob Match f pattern s
      = (([], Some (ErrorsNew (''invalid result from inner fsys Glob: ''
                                @ '' not in '' @ dir f))), s1)"
    by (simp add: subFS_Glob_def)
  from False
  have cond: "\<not> (\<forall>m \<in> set list. m = dir f \<or> (\<exists>rest. rest \<noteq> [] \<and> m = dir f @ ''/'' @ rest))"
    unfolding shorten_accepts_iff .
  show ?thesis unfolding eq by (rule if_not_P [symmetric]) (rule cond)
qed

theorem subFS_Glob_matches_witness:
  "subFS_Glob (\<lambda>p n. (False, None)) \<lparr> fsys = demoStore, dir = ''x'' \<rparr> ''*.txt'' []
     = (([''1.txt'', ''2.txt''], None), [Call ''glob'' [''x/*.txt'']])
   \<and> subFS_Glob (\<lambda>p n. (False, None)) \<lparr> fsys = demoStore, dir = ''x'' \<rparr> ''[.]*'' []
     = (([''.'', ''1.txt''], None), [Call ''glob'' [''x/[.]*'']])
   \<and> subFS_Glob (\<lambda>p n. (False, None)) \<lparr> fsys = demoStore, dir = ''x'' \<rparr> ''*'' []
     = (([], Some (ErrorsNew ''invalid result from inner fsys Glob:  not in x'')),
        [Call ''glob'' [''x/*'']])
   \<and> subFS_Glob (\<lambda>p n. (False, None)) \<lparr> fsys = demoStore, dir = ''x'' \<rparr> ''?*'' []
     = (([], Some (ErrorsNew ''invalid result from inner fsys Glob:  not in x'')),
        [Call ''glob'' [''x/?*'']])"
proof -
  let ?M = "\<lambda>(p :: string) (n :: string). (False, None :: error option)"
  let ?f = "\<lparr> fsys = demoStore, dir = ''x'' \<rparr>"
  have g1: "Glob (fsys ?f) (dir ?f @ ''/'' @ ''*.txt'') []
      = (([''x/1.txt'', ''x/2.txt''], None), [Call ''glob'' [''x/*.txt'']])"
    by (simp add: demoStore_def)
  have g2: "Glob (fsys ?f) (dir ?f @ ''/'' @ ''[.]*'') []
      = (([''x'', ''x/1.txt''], None), [Call ''glob'' [''x/[.]*'']])"
    by (simp add: demoStore_def)
  have g3: "Glob (fsys ?f) (dir ?f @ ''/'' @ ''*'') []
      = (([''x/1.txt'', ''y/3.txt''], None), [Call ''glob'' [''x/*'']])"
    by (simp add: demoStore_def)
  have g4: "Glob (fsys ?f) (dir ?f @ ''/'' @ ''?*'') []
      = (([''x/1.txt'', ''xy/2.txt''], None), [Call ''glob'' [''x/?*'']])"
    by (simp add: demoStore_def)
  have p: "snd (?M ''*.txt'' []) = None" "''*.txt'' \<noteq> ''.''"
    "snd (?M ''[.]*'' []) = None" "''[.]*'' \<noteq> ''.''"
    "snd (?M ''*'' []) = None" "''*'' \<noteq> ''.''"
    "snd (?M ''?*'' []) = None" "''?*'' \<noteq> ''.''"
    by simp_all
  from subFS_Glob_matches [of ?M "''*.txt''" ?f "[]", OF p(1) p(2) g1]
       subFS_Glob_matches [of ?M "''[.]*''" ?f "[]", OF p(3) p(4) g2]
       subFS_Glob_matches [of ?M "''*''" ?f "[]", OF p(5) p(6) g3]
       subFS_Glob_matches [of ?M "''?*''" ?f "[]", OF p(7) p(8) g4]
  show ?thesis by (simp add: fixErr_def)
qed

subsection \<open>Names that fail validation\<close>

lemma splitSlash_not_Nil: "splitSlash name \<noteq> []"
  by (induction name) (auto split: list.splits)

lemma leading_dotdot_invalid: "hd (splitSlash name) = ''..'' \<Longrightarrow> \<not> ValidPath name"
proof -
  assume h: "hd (splitSlash name) = ''..''"
  have "hd (splitSlash name) \<in> set (splitSlash name)"
    using splitSlash_not_Nil by (rule hd_in_set)
  with h show ?thesis by (auto simp: ValidPath_def list_all_iff)
qed

lemma fullName_invalid:
  "\<not> ValidPath name \<Longrightarrow> fullName f op name = ([], Some (PathError op name ErrInvalid))"
  by (simp add: fullName_def)

lemma fullName_valid: "ValidPath name \<Longrightarrow> fullName f op name = (path_Join (dir f) name, None)"
  by (simp add: fullName_def)

text \<open>
  The two-name operations of subFS: when a name fails validation, the error names the first
  such name and the world is as before, so the store has not been called.
\<close>

lemma subFS_two_names_invalid:
  assumes "\<not> ValidPath oldname \<or> \<not> ValidPath newname"
  shows "subFS_Rename f oldname newname s
           = (Some (PathError ''rename'' (if ValidPath oldname then newname else oldname) ErrInvalid), s)"
    and "subFS_Link f oldname newname s
           = (Some (PathError ''link'' (if ValidPath oldname then newname else oldname) ErrInvalid), s)"
    and "subFS_Symlink f oldname newname s
           = (Some (PathError ''symlink'' (if ValidPath oldname then newname else oldname) ErrInvalid), s)"
  using assms
  by (auto simp: subFS_Rename_def subFS_Link_def subFS_Symlink_def fullName_def)

text \<open>Link and Symlink of rootFS do the same with isValidRootFSPath.\<close>

lemma rootFS_Link_Symlink_invalid:
  assumes "\<not> isValidRootFSPath pf oldname \<or> \<not> isValidRootFSPath pf newname"
  shows "rootFS_Link pf r oldname newname s
           = (Some (PathError ''link''
                (if isValidRootFSPath pf oldname then newname else oldname) ErrInvalid), s)"
    and "rootFS_Symlink pf r oldname newname s
           = (Some (PathError ''symlink''
                (if isValidRootFSPath pf oldname then newname else oldname) ErrInvalid), s)"
  using assms by (auto simp: rootFS_Link_def rootFS_Symlink_def)

text \<open>
  Rename of rootFS refuses only when both names fail validation; as soon as one of them
  is valid it calls Root.Rename with both.
\<close>

lemma rootFS_Rename_both_invalid:
  "\<not> isValidRootFSPath pf oldname \<Longrightarrow> \<not> isValidRootFSPath pf newname \<Longrightarrow>
   rootFS_Rename pf r oldname newname s = (Some (LinkError ''rename'' oldname newname ErrInvalid), s)"
  by (simp add: rootFS_Rename_def)

lemma rootFS_Rename_one_valid:
  "isValidRootFSPath pf oldname \<or> isValidRootFSPath pf newname \<Longrightarrow>
   rootFS_Rename pf r oldname newname s = rootRename r oldname newname s"
  by (auto simp: rootFS_Rename_def Root_Rename_def)

text \<open>
  Claim C1, at the input where the code departs from it: \<open>oldname = "../x"\<close> fails
  validation and \<open>newname = "a"\<close> passes it, and rootFS.Rename returns no error after
  calling the root's rename with both names, as the log of calls shows.
\<close>

theorem rootFS_Rename_forwards_invalid_name:
  "\<not> isValidRootFSPath unix ''../x'' \<and> isValidRootFSPath unix ''a''
   \<and> rootFS_Rename unix demoRoot ''../x'' ''a'' [] = (None, [Call ''renameat'' [''../x'', ''a'']])"
  by (simp add: rootFS_Rename_def Root_Rename_def isValidRootFSPath_def ValidPath_def
      unix_def demoRoot_def)

subsection \<open>The path in the errors of subFS\<close>

lemma shorten_Join: "name \<noteq> [] \<Longrightarrow> shorten f (path_Join (dir f) name) = (name, True)"
  by (cases name) (auto simp: shorten_def path_Join_def nth_append)

lemma fixErr_Join:
  "name \<noteq> [] \<Longrightarrow>
   fixErr f (Some (PathError op (path_Join (dir f) name) e)) = Some (PathError op name e)"
  by (simp add: fixErr_def shorten_Join)

lemma ValidPath_not_Nil: "ValidPath name \<Longrightarrow> name \<noteq> []"
  by (auto simp: ValidPath_def)

text \<open>
  Open, ReadDir and ReadFile give the caller's name back in a path error of the store on
  the prefixed name.
\<close>

lemma subFS_Open_error_path:
  assumes "ValidPath name"
    and "Open (fsys f) (path_Join (dir f) name) s
           = ((file, Some (PathError op (path_Join (dir f) name) e)), s1)"
  shows "subFS_Open f name s = ((file, Some (PathError op name e)), s1)"
  using assms by (simp add: subFS_Open_def fullName_valid fixErr_Join ValidPath_not_Nil)

lemma subFS_ReadDir_error_path:
  assumes "ValidPath name"
    and "ReadDir (fsys f) (path_Join (dir f) name) s
           = ((d, Some (PathError op (path_Join (dir f) name) e)), s1)"
  shows "subFS_ReadDir f name s = ((d, Some (PathError op name e)), s1)"
  using assms by (simp add: subFS_ReadDir_def fullName_valid fixErr_Join ValidPath_not_Nil)

lemma subFS_ReadFile_error_path:
  assumes "ValidPath name"
    and "ReadFile (fsys f) (path_Join (dir f) name) s
           = ((d, Some (PathError op (path_Join (dir f) name) e)), s1)"
  shows "subFS_ReadFile f name s = ((d, Some (PathError op name e)), s1)"
  using assms by (simp add: subFS_ReadFile_def fullName_valid fixErr_Join ValidPath_not_Nil)

text \<open>Stat returns what the store returns, error and all.\<close>

lemma subFS_Stat_unfixed:
  "ValidPath name \<Longrightarrow> subFS_Stat f name s = Stat (fsys f) (path_Join (dir f) name) s"
  by (simp add: subFS_Stat_def fullName_valid)

text \<open>
  Claim C2, at the input where the code departs from it: the subtree at \<open>x\<close> of a store
  without \<open>x/y/z\<close>. Stat of \<open>y/z\<close> returns the store's error with the prefixed path
  \<open>x/y/z\<close>; Open of the same name returns it with the caller's \<open>y/z\<close>.
\<close>

theorem subFS_Stat_keeps_prefixed_path:
  "subFS_Stat \<lparr> fsys = demoStore, dir = ''x'' \<rparr> ''y/z'' []
     = ((None, Some (PathError ''stat'' ''x/y/z'' ErrNotExist)), [Call ''stat'' [''x/y/z'']])
   \<and> subFS_Open \<lparr> fsys = demoStore, dir = ''x'' \<rparr> ''y/z'' []
     = ((None, Some (PathError ''open'' ''y/z'' ErrNotExist)), [Call ''open'' [''x/y/z'']])"
  by (simp add: subFS_Stat_def subFS_Open_def fullName_def ValidPath_def path_Join_def
      demoStore_def fixErr_def shorten_def)

subsection \<open>Names that begin with the parent directory\<close>

text \<open>
  Claim C3 as stated fails: splitPathInRoot returns the component \<open>..\<close> of
  \<open>../escape.txt\<close> in its sequence, without error, and Root.Open of that name validates
  nothing: the open of the platform is reached, as the log of calls shows.
\<close>

theorem dotdot_reaches_resolution:
  "splitPathInRoot unix ''../escape.txt'' [] [] = Some ([''..'', ''escape.txt''], [], None)
   \<and> Root_Open demoRoot ''../escape.txt'' []
       = (Inl (PathError ''openat'' ''../escape.txt'' ErrNotExist),
          [Call ''openat'' [''../escape.txt'']])"
  by (simp add: splitPathInRoot_def unix_def splitLoop.simps skipSeparators.simps
      Root_Open_def Root_OpenFile_def demoRoot_def)

text \<open>
  Claim C3, amended. For every name whose leading component is \<open>..\<close>, opening it through
  the root's FS wrapper (rootFS.Open) fails with the invalid-path error at the validation of
  the name, with the world as before: Root.Open is not called, so no resolution and no
  access to the file system takes place.
\<close>

theorem rootFS_Open_rejects_leading_dotdot:
  assumes "hd (splitSlash name) = ''..''"
  shows "rootFS_Open pf r name s = (Inl (PathError ''open'' name ErrInvalid), s)"
  using leading_dotdot_invalid [OF assms]
  by (simp add: rootFS_Open_def isValidRootFSPath_def)

theorem rootFS_Open_rejects_leading_dotdot_witness:
  "hd (splitSlash ''../escape.txt'') = ''..''
   \<and> rootFS_Open unix demoRoot ''../escape.txt'' []
       = (Inl (PathError ''open'' ''../escape.txt'' ErrInvalid), [])"
proof -
  have h: "hd (splitSlash ''../escape.txt'') = ''..''" by simp
  from rootFS_Open_rejects_leading_dotdot [OF h, of unix demoRoot "[]"] h show ?thesis by simp
qed

end
